theory Spec2Isabelle
  imports Complex_Main "HOL-Library.Option_ord"
begin

section \<open>Python values and exceptions\<close>

text \<open>
  Exceptions of the Python source are values: a call that can raise returns
  \<open>exn + 'a\<close>, with \<open>Inl\<close> the exception.
\<close>

datatype exn =
    RuntimeError
  | ValueError
  | IndexError
  | AttributeError
  | ArgumentError
  | AssertionError string
  | ZeroDivisionError
  | UnboundLocalError

text \<open>Python's \<open>max\<close> of a list: \<open>ValueError\<close> on the empty list.\<close>

definition py_max :: "nat list \<Rightarrow> exn + nat" where
  "py_max xs = (case xs of [] \<Rightarrow> Inl ValueError | y # ys \<Rightarrow> Inr (fold max ys y))"

text \<open>
  Python's slice \<open>xs[:n]\<close> for an integer \<open>n\<close>: the first \<open>n\<close> elements when
  \<open>n\<close> is not negative, all but the last \<open>-n\<close> otherwise.
\<close>

definition slice_to :: "int \<Rightarrow> 'a list \<Rightarrow> 'a list" where
  "slice_to n xs = (if 0 \<le> n then take (nat n) xs else take (length xs - nat (- n)) xs)"

text \<open>Python's \<open>list.index\<close>: the first position of a value, \<open>None\<close> for \<open>ValueError\<close>.\<close>

fun list_index :: "'a list \<Rightarrow> 'a \<Rightarrow> nat option" where
  "list_index [] v = None"
| "list_index (x # xs) v = (if x = v then Some 0 else map_option Suc (list_index xs v))"

text \<open>A list comprehension whose body can raise: the first exception ends it.\<close>

fun map_exn :: "('a \<Rightarrow> exn + 'b) \<Rightarrow> 'a list \<Rightarrow> exn + 'b list" where
  "map_exn f [] = Inr []"
| "map_exn f (x # xs) =
     (case f x of
        Inl e \<Rightarrow> Inl e
      | Inr y \<Rightarrow> (case map_exn f xs of Inl e \<Rightarrow> Inl e | Inr ys \<Rightarrow> Inr (y # ys)))"

text \<open>
  The indices of \<open>torch.max\<close> along the last dimension, on one vector: the first
  position of the largest entry; an empty dimension raises.
\<close>

definition argmax :: "'a::linorder list \<Rightarrow> exn + nat" where
  "argmax xs =
     (case xs of
        [] \<Rightarrow> Inl IndexError
      | y # ys \<Rightarrow> Inr (length (takeWhile (\<lambda>x. x \<noteq> fold max ys y) xs)))"

section \<open>Character accuracy (calculate_character_accuracy)\<close>

text \<open>
  Logits are values of a linear order, the loss mask and the quotient are real
  numbers (the source computes them in floating point), and the three tensors
  are lists of rows of one shape: broadcasting of unequal shapes is not
  modelled. A zero total makes the division raise.
\<close>

definition calculate_character_accuracy ::
  "'l::linorder list list list \<Rightarrow> real list list \<Rightarrow> int list list \<Rightarrow> exn + real" where
  "calculate_character_accuracy token_logits loss_mask labels =
     (case map_exn (map_exn argmax) token_logits of
        Inl e \<Rightarrow> Inl e
      | Inr predicted_tokens \<Rightarrow>
          (let correct_tokens =
                 map2 (\<lambda>(lrow, prow) mrow.
                         map2 (\<lambda>(l, p) m. (if l = int p then 1 else 0) * m) (zip lrow prow) mrow)
                   (zip labels predicted_tokens) loss_mask;
               num_correct = sum_list (map sum_list correct_tokens);
               total = sum_list (map sum_list loss_mask)
           in if total = 0 then Inl ZeroDivisionError else Inr (num_correct / total)))"

text \<open>
  What the accuracy is specified to count: the positions whose loss mask is 1,
  and among them those where the position of the largest logit is the label.
\<close>

definition active_count :: "real list list \<Rightarrow> nat" where
  "active_count loss_mask = sum_list (map (\<lambda>mrow. length (filter (\<lambda>m. m = 1) mrow)) loss_mask)"

definition correct_active_count ::
  "'l::linorder list list list \<Rightarrow> real list list \<Rightarrow> int list list \<Rightarrow> nat" where
  "correct_active_count token_logits loss_mask labels =
     sum_list
       (map2 (\<lambda>(lrow, xrow) mrow.
                length (filter (\<lambda>((l, x), m). m = 1 \<and> 0 \<le> l \<and> argmax x = Inr (nat l))
                          (zip (zip lrow xrow) mrow)))
          (zip labels token_logits) loss_mask)"

text \<open>
  The active positions that are mispredicted (\<open>logits\<close>, \<open>lmask\<close> and \<open>lbls\<close>
  are the logits, the loss mask and the labels).
\<close>

definition wrong_active_count ::
  "'l::linorder list list list \<Rightarrow> real list list \<Rightarrow> int list list \<Rightarrow> nat" where
  "wrong_active_count logits lmask lbls =
     sum_list
       (map2 (\<lambda>(lrow, xrow) mrow.
                length (filter (\<lambda>((l, x), m). m = 1 \<and> \<not> (0 \<le> l \<and> argmax x = Inr (nat l)))
                          (zip (zip lrow xrow) mrow)))
          (zip lbls logits) lmask)"

section \<open>The tokenizer\<close>

text \<open>
  The tokenizer is a collaborator of the modelled code: its operations and its
  special ids are taken as given. \<open>tokenize\<close> may draw random numbers when it
  masks, so it reads and returns the state \<open>'w\<close> of the random source.
\<close>

record 'tok token_output =
  original_tokens :: "'tok list list"
  masked_tokens :: "'tok list list"
  token_masks :: "bool list list"

record ('tok, 'w) tokenizer =
  pad_id :: int
  bos_id :: int
  eos_id :: int
  vocab_size :: nat
  tokenize :: "string list \<Rightarrow> bool \<Rightarrow> bool \<Rightarrow> 'w \<Rightarrow> 'tok token_output \<times> 'w"
  convert_tokens_to_ids :: "'tok list list \<Rightarrow> int list list"
  ids_to_tokens :: "int list list \<Rightarrow> 'tok list list"
  tokens_to_text :: "'tok list list \<Rightarrow> string list"

section \<open>Pruning of decoded sequences (sample_molecules)\<close>

text \<open>
  The body of the loop of \<open>sample_molecules\<close> over the decoded sequences:
  cut before the first end-of-sequence id when there is one, else drop every pad id.
\<close>

definition prune_tokens :: "int \<Rightarrow> int \<Rightarrow> int list \<Rightarrow> exn + int list" where
  "prune_tokens eos pad predicted_tokens =
     (if eos \<in> set predicted_tokens then
        (case list_index predicted_tokens eos of
           None \<Rightarrow> Inl ValueError
         | Some idx \<Rightarrow> Inr (take idx predicted_tokens))
      else Inr (filter (\<lambda>id. id \<noteq> pad) predicted_tokens))"

definition prune_predicted :: "('tok, 'w) tokenizer \<Rightarrow> int list list \<Rightarrow> exn + int list list" where
  "prune_predicted tk predicted_tokens_ids =
     map_exn (prune_tokens (eos_id tk) (pad_id tk)) predicted_tokens_ids"

section \<open>Autoregressive decoding (decode)\<close>

text \<open>
  The network is a collaborator: \<open>enc_output\<close> is the forward pass that returns
  only the encoder hidden states, \<open>token_logits\<close> the forward pass on encoder
  ids, decoder ids, encoder mask, decoder mask and the cached hidden states,
  giving one logit per batch row, decoder position and vocabulary entry. Logits
  are values of a linear order \<open>'l\<close>; the floating-point arithmetic of
  \<open>log_softmax\<close> is not modelled: it is increasing, so the position of the
  largest entry is read off the logits themselves.
\<close>

record ('h, 'l) network =
  enc_output :: "int list list \<Rightarrow> int list list \<Rightarrow> 'h"
  token_logits ::
    "int list list \<Rightarrow> int list list \<Rightarrow> int list list \<Rightarrow> bool list list \<Rightarrow> 'h \<Rightarrow> 'l list list list"

text \<open>
  \<open>token_logits[:, :, vocab_size:] = -inf\<close> on one vocabulary vector: \<open>None\<close> is
  minus infinity, below every \<open>Some l\<close>.
\<close>

definition never_pick_padded :: "nat \<Rightarrow> 'l list \<Rightarrow> 'l option list" where
  "never_pick_padded vs row = map Some (take vs row) @ replicate (length row - vs) None"

text \<open>\<open>token_ids[:, -1]\<close> on one row.\<close>

definition last_position :: "'a list \<Rightarrow> exn + 'a" where
  "last_position row = (if row = [] then Inl IndexError else Inr (last row))"

text \<open>The decoder mask of the loop: \<open>predicted_tokens_dec != pad_id\<close>.\<close>

definition dec_mask_of :: "int \<Rightarrow> int list list \<Rightarrow> bool list list" where
  "dec_mask_of pad predicted_tokens_dec = map (map (\<lambda>t. t \<noteq> pad)) predicted_tokens_dec"

text \<open>
  One iteration of the loop of \<open>decode\<close>. \<open>torch.cat\<close> along dimension 1 raises
  when the batch sizes differ.
\<close>

definition decode_step ::
  "('tok, 'w) tokenizer \<Rightarrow> ('h, 'l::linorder) network \<Rightarrow> int list list \<Rightarrow> int list list \<Rightarrow> 'h
     \<Rightarrow> int list list \<Rightarrow> exn + int list list" where
  "decode_step tk net tokens_enc enc_mask hs predicted_tokens_dec =
     (let dec_mask = dec_mask_of (pad_id tk) predicted_tokens_dec;
          logits = token_logits net tokens_enc predicted_tokens_dec enc_mask dec_mask hs;
          logits' = map (map (never_pick_padded (vocab_size tk))) logits
      in case map_exn (map_exn argmax) logits' of
           Inl e \<Rightarrow> Inl e
         | Inr token_ids \<Rightarrow>
             (case map_exn last_position token_ids of
                Inl e \<Rightarrow> Inl e
              | Inr col \<Rightarrow>
                  if length col \<noteq> length predicted_tokens_dec then Inl RuntimeError
                  else Inr (map2 (\<lambda>row t. row @ [int t]) predicted_tokens_dec col)))"

fun decode_loop ::
  "('tok, 'w) tokenizer \<Rightarrow> ('h, 'l::linorder) network \<Rightarrow> int list list \<Rightarrow> int list list \<Rightarrow> 'h
     \<Rightarrow> nat \<Rightarrow> int list list \<Rightarrow> exn + int list list" where
  "decode_loop tk net tokens_enc enc_mask hs 0 pred = Inr pred"
| "decode_loop tk net tokens_enc enc_mask hs (Suc n) pred =
     (case decode_step tk net tokens_enc enc_mask hs pred of
        Inl e \<Rightarrow> Inl e
      | Inr pred' \<Rightarrow> decode_loop tk net tokens_enc enc_mask hs n pred')"

text \<open>
  The decoder masks the loop computes, in order, up to its end or to the
  iteration that raises.
\<close>

fun dec_masks ::
  "('tok, 'w) tokenizer \<Rightarrow> ('h, 'l::linorder) network \<Rightarrow> int list list \<Rightarrow> int list list \<Rightarrow> 'h
     \<Rightarrow> nat \<Rightarrow> int list list \<Rightarrow> bool list list list" where
  "dec_masks tk net tokens_enc enc_mask hs 0 pred = []"
| "dec_masks tk net tokens_enc enc_mask hs (Suc n) pred =
     dec_mask_of (pad_id tk) pred #
       (case decode_step tk net tokens_enc enc_mask hs pred of
          Inl e \<Rightarrow> []
        | Inr pred' \<Rightarrow> dec_masks tk net tokens_enc enc_mask hs n pred')"

text \<open>
  The initial decoder ids of \<open>decode\<close>: one begin-of-sequence id per row of
  \<open>tokens_enc\<close>.
\<close>

definition initial_tokens_dec :: "('tok, 'w) tokenizer \<Rightarrow> int list list \<Rightarrow> int list list" where
  "initial_tokens_dec tk tokens_enc = map (\<lambda>_. [bos_id tk]) tokens_enc"

text \<open>
  \<open>decode\<close>, of which the token ids are modelled (the log probabilities it also
  returns are floating-point values). With no iteration the variable
  \<open>log_probs\<close> of the return statement is unbound.
\<close>

definition decode ::
  "('tok, 'w) tokenizer \<Rightarrow> ('h, 'l::linorder) network \<Rightarrow> int list list \<Rightarrow> int list list
     \<Rightarrow> nat \<Rightarrow> exn + int list list" where
  "decode tk net tokens_enc enc_mask num_tokens_to_generate =
     (let encoder_hidden_states = enc_output net tokens_enc enc_mask
      in case decode_loop tk net tokens_enc enc_mask encoder_hidden_states
                num_tokens_to_generate (initial_tokens_dec tk tokens_enc) of
           Inl e \<Rightarrow> Inl e
         | Inr predicted_tokens_dec \<Rightarrow>
             if num_tokens_to_generate = 0 then Inl UnboundLocalError
             else Inr predicted_tokens_dec)"

text \<open>
  \<open>sample_molecules\<close> up to the pruned id sequences, and whole; the number of
  tokens to generate is the configured \<open>max_position_embeddings\<close>.
\<close>

definition sample_token_ids ::
  "('tok, 'w) tokenizer \<Rightarrow> ('h, 'l::linorder) network \<Rightarrow> int list list \<Rightarrow> int list list
     \<Rightarrow> nat \<Rightarrow> exn + int list list" where
  "sample_token_ids tk net tokens_enc enc_mask max_position_embeddings =
     (case decode tk net tokens_enc enc_mask max_position_embeddings of
        Inl e \<Rightarrow> Inl e
      | Inr predicted_tokens_ids \<Rightarrow> prune_predicted tk predicted_tokens_ids)"

definition sample_molecules ::
  "('tok, 'w) tokenizer \<Rightarrow> ('h, 'l::linorder) network \<Rightarrow> int list list \<Rightarrow> int list list
     \<Rightarrow> nat \<Rightarrow> exn + string list" where
  "sample_molecules tk net tokens_enc enc_mask max_position_embeddings =
     (case sample_token_ids tk net tokens_enc enc_mask max_position_embeddings of
        Inl e \<Rightarrow> Inl e
      | Inr predicted_tokens_ids \<Rightarrow>
          Inr (tokens_to_text tk (ids_to_tokens tk predicted_tokens_ids)))"

text \<open>
  The decoder masks computed by the loop of \<open>decode\<close>, started as \<open>decode\<close>
  starts it.
\<close>

definition decode_masks ::
  "('tok, 'w) tokenizer \<Rightarrow> ('h, 'l::linorder) network \<Rightarrow> int list list \<Rightarrow> int list list
     \<Rightarrow> nat \<Rightarrow> bool list list list" where
  "decode_masks tk net tokens_enc enc_mask num_tokens_to_generate =
     dec_masks tk net tokens_enc enc_mask (enc_output net tokens_enc enc_mask)
       num_tokens_to_generate (initial_tokens_dec tk tokens_enc)"

text \<open>Every position of every row of every mask is active.\<close>

definition all_active :: "bool list list list \<Rightarrow> bool" where
  "all_active masks = list_all (list_all (list_all (\<lambda>b. b))) masks"


section \<open>Molecule enumeration (augment.py)\<close>

text \<open>The configuration \<open>MoleculeEnumeration\<close> is constructed with.\<close>

record config =
  seq_length :: int
  encoder_augment :: bool
  encoder_mask :: bool
  decoder_augment :: bool
  decoder_mask :: bool
  canonicalize_input :: bool
  pad_size_divisible_by_8 :: bool

text \<open>
  The chemistry toolkit and the random source are collaborators.
  \<open>MolFromSmiles\<close> returns \<open>None\<close> for a string it cannot parse;
  \<open>MolToSmiles mol canonical\<close> and \<open>RenumberAtoms\<close> can raise;
  \<open>shuffle\<close> is \<open>numpy.random.shuffle\<close>, reading and returning the state \<open>'w\<close>
  of the random source.
\<close>

record ('mol, 'w) chem =
  MolFromSmiles :: "string \<Rightarrow> 'mol option"
  MolToSmiles :: "'mol \<Rightarrow> bool \<Rightarrow> exn + string"
  GetNumAtoms :: "'mol \<Rightarrow> nat"
  RenumberAtoms :: "'mol \<Rightarrow> nat list \<Rightarrow> exn + 'mol"
  shuffle :: "nat list \<Rightarrow> 'w \<Rightarrow> nat list \<times> 'w"

text \<open>\<open>Chem.MolToSmiles\<close> on the result of a parse: \<open>None\<close> is not a molecule.\<close>

definition mol_to_smiles :: "('mol, 'w) chem \<Rightarrow> 'mol option \<Rightarrow> bool \<Rightarrow> exn + string" where
  "mol_to_smiles c mol canonical =
     (case mol of None \<Rightarrow> Inl ArgumentError | Some m \<Rightarrow> MolToSmiles c m canonical)"

text \<open>
  \<open>_smiles_augmeter_func\<close>: the pair of the augmented and the canonical string,
  and the state of the random source. Only a \<open>RuntimeError\<close> of the rendering
  of the renumbered molecule is caught.
\<close>

definition smiles_augmeter_func ::
  "config \<Rightarrow> ('mol, 'w) chem \<Rightarrow> string \<Rightarrow> bool \<Rightarrow> 'w \<Rightarrow> exn + ((string \<times> string) \<times> 'w)" where
  "smiles_augmeter_func cfg c smiles augment_data w =
     (let mol = MolFromSmiles c smiles in
      case (if canonicalize_input cfg then mol_to_smiles c mol True else Inr smiles) of
        Inl e \<Rightarrow> Inl e
      | Inr canon_smiles \<Rightarrow>
          (case (if augment_data then
                   (case mol of
                      None \<Rightarrow> Inl AttributeError
                    | Some m \<Rightarrow>
                        (case shuffle c [0..<GetNumAtoms c m] w of
                           (atom_order, w') \<Rightarrow>
                             (case RenumberAtoms c m atom_order of
                                Inl e \<Rightarrow> Inl e
                              | Inr aug_mol \<Rightarrow>
                                  (case MolToSmiles c aug_mol False of
                                     Inr aug_smiles \<Rightarrow> Inr (aug_smiles, w')
                                   | Inl e \<Rightarrow>
                                       if e = RuntimeError then
                                         (if canonicalize_input cfg then Inr (canon_smiles, w')
                                          else (case MolToSmiles c m True of
                                                  Inl e' \<Rightarrow> Inl e'
                                                | Inr aug_smiles \<Rightarrow> Inr (aug_smiles, w')))
                                       else Inl e))))
                 else (case mol_to_smiles c mol False of
                         Inl e \<Rightarrow> Inl e
                       | Inr aug_smiles \<Rightarrow> Inr (aug_smiles, w))) of
             Inl e \<Rightarrow> Inl e
           | Inr (aug_smiles, w') \<Rightarrow>
               if \<not> 0 < length aug_smiles then
                 Inl (AssertionError ''Augmented SMILES string is empty'')
               else if \<not> 0 < length canon_smiles then
                 Inl (AssertionError ''Canonical SMILES string is empty'')
               else Inr ((aug_smiles, canon_smiles), w')))"

text \<open>
  \<open>_check_seq_len\<close>, for any type of token and of mask entry (\<open>masks\<close> is the
  source's \<open>mask\<close>).
\<close>

definition check_seq_len ::
  "config \<Rightarrow> 'a list list \<Rightarrow> 'b list list \<Rightarrow> exn + ('a list list \<times> 'b list list)" where
  "check_seq_len cfg tokens masks =
     (case py_max (map length tokens) of
        Inl e \<Rightarrow> Inl e
      | Inr seq_len \<Rightarrow>
          if int seq_len > seq_length cfg then
            Inr (map (slice_to (seq_length cfg)) tokens, map (slice_to (seq_length cfg)) masks)
          else Inr (tokens, masks))"

text \<open>
  The list comprehension of \<open>_prepare_tokens\<close> over the batch, threading the
  random source through the calls in order.
\<close>

fun augment_batch ::
  "config \<Rightarrow> ('mol, 'w) chem \<Rightarrow> string list \<Rightarrow> bool \<Rightarrow> 'w
     \<Rightarrow> exn + ((string \<times> string) list \<times> 'w)" where
  "augment_batch cfg c [] augment_data w = Inr ([], w)"
| "augment_batch cfg c (smiles # batch) augment_data w =
     (case smiles_augmeter_func cfg c smiles augment_data w of
        Inl e \<Rightarrow> Inl e
      | Inr (x, w1) \<Rightarrow>
          (case augment_batch cfg c batch augment_data w1 of
             Inl e \<Rightarrow> Inl e
           | Inr (xs, w2) \<Rightarrow> Inr (x # xs, w2)))"

text \<open>
  \<open>_prepare_tokens\<close>: the dictionary it returns is the triple of its
  \<open>tokens\<close>, \<open>mask\<close> and \<open>target_smiles\<close> entries.
\<close>

definition prepare_tokens ::
  "config \<Rightarrow> ('mol, 'w) chem \<Rightarrow> ('tok, 'w) tokenizer \<Rightarrow> string list \<Rightarrow> bool \<Rightarrow> bool \<Rightarrow> 'w
     \<Rightarrow> exn + (('tok list list \<times> bool list list \<times> string list) \<times> 'w)" where
  "prepare_tokens cfg c tk batch augment_data mask_data w =
     (case augment_batch cfg c batch augment_data w of
        Inl e \<Rightarrow> Inl e
      | Inr (smiles_list, w1) \<Rightarrow>
          (let smiles = map fst smiles_list;
               canon_targets = map snd smiles_list
           in case tokenize tk smiles False mask_data w1 of
                (token_output, w2) \<Rightarrow>
                  (let tokens = (if mask_data then masked_tokens token_output
                                 else original_tokens token_output);
                       masks = (if mask_data then token_masks token_output
                                else map (\<lambda>ts. replicate (length ts) True) tokens)
                   in case check_seq_len cfg tokens masks of
                        Inl e \<Rightarrow> Inl e
                      | Inr (tokens', masks') \<Rightarrow> Inr ((tokens', masks', canon_targets), w2))))"

text \<open>
  \<open>int(math.ceil(pad_length/8) * 8)\<close> on a list length (lengths are far below
  the range where the floating-point quotient is inexact).
\<close>

definition ceil8 :: "nat \<Rightarrow> nat" where
  "ceil8 pad_length = ((pad_length + 7) div 8) * 8"

text \<open>\<open>_pad_seqs\<close>: the padded sequences and their masks, 1 for a token and 0 for padding.\<close>

definition pad_seqs :: "config \<Rightarrow> int list list \<Rightarrow> int \<Rightarrow> exn + (int list list \<times> int list list)" where
  "pad_seqs cfg seqs pad_token =
     (case py_max (map length seqs) of
        Inl e \<Rightarrow> Inl e
      | Inr longest \<Rightarrow>
          (let pad_length = (if pad_size_divisible_by_8 cfg then ceil8 longest else longest)
           in Inr (map (\<lambda>seq. seq @ replicate (pad_length - length seq) pad_token) seqs,
                   map (\<lambda>seq. replicate (length seq) 1 @ replicate (pad_length - length seq) 0)
                     seqs)))"

text \<open>
  \<open>torch.tensor\<close> of a list of rows: rows of unequal length raise. The entries
  are token ids and mask bits, within the range of the 64-bit element type.
\<close>

definition tensor :: "int list list \<Rightarrow> exn + int list list" where
  "tensor rows =
     (if list_all (\<lambda>row. length row = length (hd rows)) rows then Inr rows else Inl ValueError)"

text \<open>
  \<open>t[~m.to(torch.bool)] = v\<close> for tensors \<open>t\<close> and \<open>m\<close> of one shape: the entries
  of \<open>t\<close> where \<open>m\<close> is zero become \<open>v\<close>.
\<close>

definition masked_assign :: "int list list \<Rightarrow> int list list \<Rightarrow> int \<Rightarrow> int list list" where
  "masked_assign t m v = map2 (\<lambda>row mrow. map2 (\<lambda>x b. if b = 0 then v else x) row mrow) t m"

record collate_output =
  text_enc :: "int list list"
  enc_mask :: "int list list"
  text_dec :: "int list list"
  dec_mask :: "int list list"
  labels :: "int list list"
  loss_mask :: "int list list"
  target_smiles :: "string list"

text \<open>
  The decoder half of \<open>collate_fn\<close>, from the decoder token ids on: decoder
  input, decoder mask, labels and loss mask.
\<close>

definition collate_decoder ::
  "config \<Rightarrow> ('tok, 'w) tokenizer \<Rightarrow> int list list \<Rightarrow> int
     \<Rightarrow> exn + (int list list \<times> int list list \<times> int list list \<times> int list list)" where
  "collate_decoder cfg tk dec_token_ids label_pad =
     (let label_ids = map (\<lambda>example. example @ [eos_id tk]) dec_token_ids;
          dec_token_ids' = map (\<lambda>example. bos_id tk # example) dec_token_ids
      in case pad_seqs cfg dec_token_ids' (pad_id tk) of
           Inl e \<Rightarrow> Inl e
         | Inr (dec_padded, decoder_mask_rows) \<Rightarrow>
        (case tensor dec_padded of
           Inl e \<Rightarrow> Inl e
         | Inr dec_tensor \<Rightarrow>
        (case tensor decoder_mask_rows of
           Inl e \<Rightarrow> Inl e
         | Inr decoder_mask_tensor \<Rightarrow>
        (case pad_seqs cfg label_ids (pad_id tk) of
           Inl e \<Rightarrow> Inl e
         | Inr (label_padded, loss_mask_rows) \<Rightarrow>
        (case tensor label_padded of
           Inl e \<Rightarrow> Inl e
         | Inr label_token_ids \<Rightarrow>
        (case tensor loss_mask_rows of
           Inl e \<Rightarrow> Inl e
         | Inr loss_mask_tensor \<Rightarrow>
             Inr (dec_tensor, decoder_mask_tensor,
                  masked_assign label_token_ids loss_mask_tensor label_pad,
                  loss_mask_tensor)))))))"

text \<open>\<open>collate_fn\<close>; \<open>label_pad\<close> defaults to \<open>-1\<close> in the source.\<close>

definition collate_fn ::
  "config \<Rightarrow> ('mol, 'w) chem \<Rightarrow> ('tok, 'w) tokenizer \<Rightarrow> string list \<Rightarrow> int \<Rightarrow> 'w
     \<Rightarrow> exn + (collate_output \<times> 'w)" where
  "collate_fn cfg c tk batch label_pad w =
     (case prepare_tokens cfg c tk batch (encoder_augment cfg) (encoder_mask cfg) w of
        Inl e \<Rightarrow> Inl e
      | Inr ((encoder_tokens, encoder_masks, encoder_targets), w1) \<Rightarrow>
     (case pad_seqs cfg (convert_tokens_to_ids tk encoder_tokens) (pad_id tk) of
        Inl e \<Rightarrow> Inl e
      | Inr (enc_padded, encoder_mask_rows) \<Rightarrow>
     (case tensor enc_padded of
        Inl e \<Rightarrow> Inl e
      | Inr enc_token_ids \<Rightarrow>
     (case tensor encoder_mask_rows of
        Inl e \<Rightarrow> Inl e
      | Inr encoder_mask_tensor \<Rightarrow>
     (case prepare_tokens cfg c tk batch (decoder_augment cfg) (decoder_mask cfg) w1 of
        Inl e \<Rightarrow> Inl e
      | Inr ((decoder_tokens, decoder_masks, decoder_targets), w2) \<Rightarrow>
     (case collate_decoder cfg tk (convert_tokens_to_ids tk decoder_tokens) label_pad of
        Inl e \<Rightarrow> Inl e
      | Inr (dec_token_ids, decoder_mask_tensor, label_token_ids, loss_mask_tensor) \<Rightarrow>
          Inr (\<lparr>text_enc = enc_token_ids, enc_mask = encoder_mask_tensor,
                text_dec = dec_token_ids, dec_mask = decoder_mask_tensor,
                labels = label_token_ids, loss_mask = loss_mask_tensor,
                target_smiles = encoder_targets\<rparr>, w2)))))))"

text \<open>
  The width \<open>_pad_seqs\<close> pads a non-empty batch to: its longest length,
  rounded up to a multiple of 8 when configured.
\<close>

definition pad_width :: "config \<Rightarrow> int list list \<Rightarrow> nat" where
  "pad_width cfg seqs =
     (if pad_size_divisible_by_8 cfg then ceil8 (Max (length ` set seqs))
      else Max (length ` set seqs))"


section \<open>Collaborators for the worked examples\<close>

text \<open>
  A tokenizer with one token per character, whose id is the character code,
  and a network whose logits are the same vector at every position.
\<close>

definition char_tokenizer :: "int \<Rightarrow> int \<Rightarrow> int \<Rightarrow> nat \<Rightarrow> (char, nat) tokenizer" where
  "char_tokenizer pad bos eos vs =
     \<lparr>pad_id = pad, bos_id = bos, eos_id = eos, vocab_size = vs,
      tokenize = (\<lambda>smiles pad mask_data w.
         (\<lparr>original_tokens = smiles, masked_tokens = smiles,
           token_masks = map (map (\<lambda>_. True)) smiles\<rparr>, w)),
      convert_tokens_to_ids = map (map (\<lambda>c. int (of_char c))),
      ids_to_tokens = map (map (\<lambda>i. char_of (nat i))),
      tokens_to_text = (\<lambda>tokens. tokens)\<rparr>"

text \<open>
  A toolkit in which a molecule is its own string, a canonical rendering is the
  reversed string, renumbering changes nothing, and the non-canonical rendering
  fails exactly for the molecules of the given list.
\<close>

definition failing_chem :: "string list \<Rightarrow> (string, nat) chem" where
  "failing_chem bad =
     \<lparr>MolFromSmiles = (\<lambda>smiles. Some smiles),
      MolToSmiles = (\<lambda>mol canonical.
         if canonical then Inr (rev mol)
         else if mol \<in> set bad then Inl RuntimeError else Inr mol),
      GetNumAtoms = length,
      RenumberAtoms = (\<lambda>mol atom_order. Inr mol),
      shuffle = (\<lambda>atom_order w. (rev atom_order, Suc w))\<rparr>"

definition example_config :: "int \<Rightarrow> bool \<Rightarrow> bool \<Rightarrow> config" where
  "example_config n canon pad8 =
     \<lparr>seq_length = n, encoder_augment = False, encoder_mask = False,
      decoder_augment = False, decoder_mask = False, canonicalize_input = canon,
      pad_size_divisible_by_8 = pad8\<rparr>"

definition constant_network :: "int list \<Rightarrow> (unit, int) network" where
  "constant_network v =
     \<lparr>enc_output = (\<lambda>tokens_enc enc_mask. ()),
      token_logits = (\<lambda>tokens_enc tokens_dec enc_mask dec_mask hs. map (map (\<lambda>_. v)) tokens_dec)\<rparr>"

text \<open>
  A network that plays a script: in the iteration where the decoder rows have
  length \<open>k\<close>, its logits at every position are the \<open>k\<close>-th vector of the script.
\<close>

definition scripted_network :: "int list list \<Rightarrow> (unit, int) network" where
  "scripted_network script =
     \<lparr>enc_output = (\<lambda>tokens_enc enc_mask. ()),
      token_logits = (\<lambda>tokens_enc tokens_dec enc_mask dec_mask hs.
         map (\<lambda>row. map (\<lambda>_. case drop (length row - 1) script of [] \<Rightarrow> [0] | v # _ \<Rightarrow> v) row)
           tokens_dec)\<rparr>"

text \<open>What \<open>collate_fn\<close> returns for the batch of the worked example.\<close>

definition example_output :: collate_output where
  "example_output =
     \<lparr>text_enc = [[67, 79, 0, 0, 0, 0, 0, 0], [67, 0, 0, 0, 0, 0, 0, 0]],
      enc_mask = [[1, 1, 0, 0, 0, 0, 0, 0], [1, 0, 0, 0, 0, 0, 0, 0]],
      text_dec = [[2, 67, 79, 0, 0, 0, 0, 0], [2, 67, 0, 0, 0, 0, 0, 0]],
      dec_mask = [[1, 1, 1, 0, 0, 0, 0, 0], [1, 1, 0, 0, 0, 0, 0, 0]],
      labels = [[67, 79, 3, - 1, - 1, - 1, - 1, - 1], [67, 3, - 1, - 1, - 1, - 1, - 1, - 1]],
      loss_mask = [[1, 1, 1, 0, 0, 0, 0, 0], [1, 1, 0, 0, 0, 0, 0, 0]],
      target_smiles = [''OC'', ''C'']\<rparr>"

text \<open>
  Logits and a loss mask for two rows of six positions over a vocabulary of
  three, the last position of each row being padding.
\<close>

definition example_logits :: "int list list list" where
  "example_logits =
     [[[0, 9, 0], [9, 0, 0], [0, 0, 9], [0, 9, 0], [9, 0, 0], [9, 0, 0]],
      [[0, 9, 0], [9, 0, 0], [0, 0, 9], [0, 9, 0], [9, 0, 0], [9, 0, 0]]]"

definition example_loss_mask :: "real list list" where
  "example_loss_mask = [[1, 1, 1, 1, 1, 0], [1, 1, 1, 1, 1, 0]]"

section \<open>Properties of pruning\<close>

lemma list_index_takeWhile:
  "v \<in> set xs \<Longrightarrow> list_index xs v = Some (length (takeWhile (\<lambda>x. x \<noteq> v) xs))"
  by (induction xs) auto

lemma list_index_absent: "v \<notin> set xs \<Longrightarrow> list_index xs v = None"
  by (induction xs) auto

lemma prune_tokens_eq:
  "prune_tokens eos pad xs =
     Inr (if eos \<in> set xs then takeWhile (\<lambda>x. x \<noteq> eos) xs else filter (\<lambda>x. x \<noteq> pad) xs)"
  by (simp add: prune_tokens_def list_index_takeWhile takeWhile_eq_take [symmetric])

lemma takeWhile_split_first:
  "v \<in> set xs \<Longrightarrow> \<exists>zs. xs = takeWhile (\<lambda>x. x \<noteq> v) xs @ v # zs"
  by (induction xs) auto

lemma takeWhile_no_stop: "v \<notin> set (takeWhile (\<lambda>x. x \<noteq> v) xs)"
  by (induction xs) auto

text \<open>
  C3. Pruning always returns. When the end-of-sequence id occurs in the
  sequence, the result is the part strictly before its first occurrence: the
  sequence is the result, then the end-of-sequence id, then a rest, and the
  result holds no end-of-sequence id. When it does not occur, the result is the
  sequence without its pad ids, wherever they stand.
\<close>

theorem prune_tokens_spec:
  "(eos \<in> set xs \<longrightarrow>
      (\<exists>ys zs. prune_tokens eos pad xs = Inr ys \<and> xs = ys @ eos # zs \<and> eos \<notin> set ys))
   \<and> (eos \<notin> set xs \<longrightarrow> prune_tokens eos pad xs = Inr (filter (\<lambda>x. x \<noteq> pad) xs))"
proof (intro conjI impI)
  assume mem: "eos \<in> set xs"
  from takeWhile_split_first [OF mem] obtain zs
    where split: "xs = takeWhile (\<lambda>x. x \<noteq> eos) xs @ eos # zs" ..
  have "prune_tokens eos pad xs = Inr (takeWhile (\<lambda>x. x \<noteq> eos) xs)"
    using mem by (simp add: prune_tokens_eq)
  with split takeWhile_no_stop [of eos xs]
  show "\<exists>ys zs. prune_tokens eos pad xs = Inr ys \<and> xs = ys @ eos # zs \<and> eos \<notin> set ys"
    by blast
next
  assume "eos \<notin> set xs"
  then show "prune_tokens eos pad xs = Inr (filter (\<lambda>x. x \<noteq> pad) xs)"
    by (simp add: prune_tokens_eq)
qed

theorem prune_tokens_spec_witness:
  "prune_tokens 3 0 [2, 5, 0, 3, 7, 3] = Inr [2, 5, 0]
   \<and> prune_tokens 3 0 [2, 0, 5, 0] = Inr [2, 5]"
proof -
  have m: "(3::int) \<in> set [2, 5, 0, 3, 7, 3]" by simp
  from prune_tokens_spec [of 3 "[2, 5, 0, 3, 7, 3]" 0] m obtain ys zs
    where r: "prune_tokens 3 0 [2, 5, 0, 3, 7, 3] = Inr ys"
      and s: "[2, 5, 0, 3, 7, 3] = ys @ 3 # zs" and n: "3 \<notin> set ys"
    by blast
  have "ys = [2, 5, 0]"
    using r by (simp add: prune_tokens_def)
  with r have a: "prune_tokens 3 0 [2, 5, 0, 3, 7, 3] = Inr [2, 5, 0]" by simp
  have n': "(3::int) \<notin> set [2, 0, 5, 0]" by simp
  from prune_tokens_spec [of 3 "[2, 0, 5, 0]" 0] n'
  have b: "prune_tokens 3 0 [2, 0, 5, 0] = Inr [2, 5]" by simp
  from a b show ?thesis ..
qed

lemma prune_tokens_no_eos: "prune_tokens eos pad xs = Inr ys \<Longrightarrow> eos \<notin> set ys"
  by (auto simp: prune_tokens_eq takeWhile_no_stop split: if_splits)

text \<open>
  C7, as stated, fails: with pad id 0 and end-of-sequence id 3, pruning
  \<open>[2, 0, 3]\<close> gives \<open>[2, 0]\<close>, and pruning that again gives \<open>[2]\<close>,
  because the second pass finds no end-of-sequence id and drops the pad id.
\<close>

theorem prune_twice_counterexample:
  "prune_tokens 3 0 [2, 0, 3] = Inr [2, 0] \<and> prune_tokens 3 0 [2, 0] = Inr [2]"
  by (simp add: prune_tokens_def)

text \<open>
  C7, amended. Pruning always returns, and pruning its result again returns the
  same sequence exactly when the first result holds no pad id or the sequence
  held no end-of-sequence id: that is, unless a pad id stands before the first
  end-of-sequence id.
\<close>

theorem prune_tokens_idem_iff:
  "\<exists>ys. prune_tokens eos pad xs = Inr ys \<and>
     ((prune_tokens eos pad ys = Inr ys) = (eos \<in> set xs \<longrightarrow> pad \<notin> set ys))"
proof (cases "eos \<in> set xs")
  case True
  let ?ys = "takeWhile (\<lambda>x. x \<noteq> eos) xs"
  have first: "prune_tokens eos pad xs = Inr ?ys"
    using True by (simp add: prune_tokens_eq)
  have "eos \<notin> set ?ys" by (rule takeWhile_no_stop)
  then have second: "prune_tokens eos pad ?ys = Inr (filter (\<lambda>x. x \<noteq> pad) ?ys)"
    by (simp add: prune_tokens_eq)
  have "(filter (\<lambda>x. x \<noteq> pad) ?ys = ?ys) = (pad \<notin> set ?ys)"
    by (auto simp: filter_id_conv)
  with first second True show ?thesis by simp
next
  case False
  let ?ys = "filter (\<lambda>x. x \<noteq> pad) xs"
  have first: "prune_tokens eos pad xs = Inr ?ys"
    using False by (simp add: prune_tokens_eq)
  have "eos \<notin> set ?ys" using False by simp
  then have "prune_tokens eos pad ?ys = Inr ?ys"
    by (simp add: prune_tokens_eq)
  with first False show ?thesis by simp
qed

theorem prune_tokens_idem_iff_witness:
  "prune_tokens 3 0 [2, 5, 3, 0] = Inr [2, 5] \<and> prune_tokens 3 0 [2, 5] = Inr [2, 5]"
proof -
  from prune_tokens_idem_iff [of 3 0 "[2, 5, 3, 0]"] obtain ys
    where r: "prune_tokens 3 0 [2, 5, 3, 0] = Inr ys"
      and i: "(prune_tokens 3 0 ys = Inr ys) = (3 \<in> set [2, 5, 3, 0::int] \<longrightarrow> 0 \<notin> set ys)"
    by blast
  have ys: "ys = [2, 5]" using r by (simp add: prune_tokens_def)
  from i have "prune_tokens 3 0 [2, 5] = Inr [2, 5]" unfolding ys by simp
  with r ys show ?thesis by simp
qed

lemma prune_tokens_hd:
  assumes "bos \<noteq> pad" "xs \<noteq> []" "hd xs = bos" "prune_tokens eos pad xs = Inr ys" "ys \<noteq> []"
  shows "hd ys = bos"
proof -
  obtain zs where xs: "xs = bos # zs" using assms(2,3) by (cases xs) auto
  show ?thesis using assms(1,4,5) unfolding xs
    by (auto simp: prune_tokens_eq split: if_splits)
qed

section \<open>Properties of decoding\<close>

lemma map_exn_Inr: "map_exn f xs = Inr ys \<Longrightarrow> list_all2 (\<lambda>x y. f x = Inr y) xs ys"
  by (induction xs arbitrary: ys) (auto split: sum.splits)

lemma map_exn_total: "(\<And>x. x \<in> set xs \<Longrightarrow> \<exists>y. f x = Inr y) \<Longrightarrow> \<exists>ys. map_exn f xs = Inr ys"
proof (induction xs)
  case Nil
  then show ?case by simp
next
  case (Cons a xs)
  from Cons.prems obtain y where y: "f a = Inr y" by auto
  from Cons obtain ys where "map_exn f xs = Inr ys" by auto
  with y show ?case by simp
qed


lemma length_takeWhile_less_mem:
  "x \<in> set xs \<Longrightarrow> \<not> P x \<Longrightarrow> length (takeWhile P xs) < length xs"
  by (induction xs) auto

lemma argmax_lt_length: "argmax xs = Inr i \<Longrightarrow> i < length xs"
proof (cases xs)
  case Nil
  assume "argmax xs = Inr i"
  with Nil show ?thesis by (simp add: argmax_def)
next
  case (Cons y ys)
  assume a: "argmax xs = Inr i"
  have "fold max ys y = Max (set xs)" unfolding Cons by (rule Max.set_eq_fold [symmetric])
  moreover have "Max (set xs) \<in> set xs" using Cons by (intro Max_in) auto
  ultimately have "fold max ys y \<in> set xs" by simp
  then have "length (takeWhile (\<lambda>x. x \<noteq> fold max ys y) xs) < length xs"
    by (rule length_takeWhile_less_mem) simp
  with a Cons show ?thesis by (simp add: argmax_def)
qed

lemma argmax_never_pick_padded:
  assumes vs: "0 < vs" and a: "argmax (never_pick_padded vs row) = Inr i"
  shows "i < vs"
proof -
  let ?A = "map Some (take vs row)"
  let ?B = "replicate (length row - vs) (None :: 'a option)"
  let ?xs = "?A @ ?B"
  have xs: "never_pick_padded vs row = ?xs" by (simp add: never_pick_padded_def)
  have "row \<noteq> []" using a by (auto simp: never_pick_padded_def argmax_def)
  then obtain r rs where row: "row = r # rs" by (cases row) auto
  obtain k where k: "vs = Suc k" using vs by (cases vs) auto
  obtain y ys where yys: "?xs = y # ys" unfolding row k by simp
  let ?m = "fold max ys y"
  have m: "?m = Max (set ?xs)" unfolding yys by (rule Max.set_eq_fold [symmetric])
  have "Some r \<in> set ?xs" unfolding row k by simp
  then have "Some r \<le> ?m" unfolding m by (intro Max_ge) auto
  then have nn: "?m \<noteq> None" by (cases ?m) auto
  have "?m \<in> set ?xs" unfolding m by (intro Max_in) (auto simp: row k)
  with nn have mA: "?m \<in> set ?A" by auto
  have "takeWhile (\<lambda>x. x \<noteq> ?m) ?xs = takeWhile (\<lambda>x. x \<noteq> ?m) ?A"
    using mA by (intro takeWhile_append1 [where x = ?m]) auto
  moreover have "length (takeWhile (\<lambda>x. x \<noteq> ?m) ?A) < length ?A"
    using mA by (intro length_takeWhile_less_mem [where x = ?m]) auto
  moreover have "i = length (takeWhile (\<lambda>x. x \<noteq> ?m) ?xs)"
    using a unfolding xs argmax_def yys by simp
  ultimately have "i < length ?A" by simp
  then show ?thesis by simp
qed

lemma list_all2_last:
  "list_all2 P xs ys \<Longrightarrow> xs \<noteq> [] \<Longrightarrow> P (last xs) (last ys)"
  by (induction rule: list_all2_induct) (auto simp: list_all2_Nil)

lemma list_all2_right_mem:
  "list_all2 P xs ys \<Longrightarrow> y \<in> set ys \<Longrightarrow> \<exists>x \<in> set xs. P x y"
  by (induction rule: list_all2_induct) auto

lemma decode_step_rows:
  assumes step: "decode_step tk net te em hs pred = Inr pred'" and mem: "row' \<in> set pred'"
  shows "\<exists>row t. row \<in> set pred \<and> row' = row @ [int t]
           \<and> (0 < vocab_size tk \<longrightarrow> t < vocab_size tk)"
proof -
  let ?logits = "map (map (never_pick_padded (vocab_size tk)))
      (token_logits net te pred em (dec_mask_of (pad_id tk) pred) hs)"
  from step obtain token_ids col
    where ids: "map_exn (map_exn argmax) ?logits = Inr token_ids"
      and col: "map_exn last_position token_ids = Inr col"
      and len: "length col = length pred"
      and res: "pred' = map2 (\<lambda>row t. row @ [int t]) pred col"
    by (auto simp: decode_step_def Let_def split: sum.splits if_splits)
  from mem res obtain row t where z: "(row, t) \<in> set (zip pred col)" and r: "row' = row @ [int t]"
    by auto
  have row: "row \<in> set pred" using z by (rule set_zip_leftD)
  have t: "t \<in> set col" using z by (rule set_zip_rightD)
  have bound: "t < vocab_size tk" if vs: "0 < vocab_size tk"
  proof -
    from list_all2_right_mem [OF map_exn_Inr [OF col] t] obtain ids_row
      where ir: "ids_row \<in> set token_ids" and lp: "last_position ids_row = Inr t"
      by blast
    from lp have ne: "ids_row \<noteq> []" and tl: "t = last ids_row"
      by (auto simp: last_position_def split: if_splits)
    from list_all2_right_mem [OF map_exn_Inr [OF ids] ir] obtain lrow
      where "lrow \<in> set ?logits" and am: "map_exn argmax lrow = Inr ids_row"
      by blast
    then obtain raw where lrow: "lrow = map (never_pick_padded (vocab_size tk)) raw"
      by auto
    have la: "list_all2 (\<lambda>x y. argmax x = Inr y) lrow ids_row"
      using am by (rule map_exn_Inr)
    then have lne: "lrow \<noteq> []" using ne by auto
    from list_all2_last [OF la lne] have "argmax (last lrow) = Inr t" by (simp add: tl)
    moreover have "last lrow = never_pick_padded (vocab_size tk) (last raw)"
      using lne unfolding lrow by (simp add: last_map)
    ultimately show ?thesis using argmax_never_pick_padded [OF vs] by simp
  qed
  show ?thesis
    using row r bound by (intro exI [of _ row] exI [of _ t]) simp
qed



lemma decode_loop_invariant:
  assumes inv: "\<And>row. row \<in> set pred \<Longrightarrow> I row"
    and keep: "\<And>row t. I row \<Longrightarrow> (0 < vocab_size tk \<longrightarrow> t < vocab_size tk) \<Longrightarrow> I (row @ [int t])"
    and loop: "decode_loop tk net te em hs n pred = Inr pred'"
  shows "\<forall>row \<in> set pred'. I row"
  using inv loop
proof (induction n arbitrary: pred)
  case 0
  then show ?case by simp
next
  case (Suc n)
  obtain p where step: "decode_step tk net te em hs pred = Inr p"
    using Suc.prems(2) by (cases "decode_step tk net te em hs pred") simp_all
  have rest: "decode_loop tk net te em hs n p = Inr pred'"
    using Suc.prems(2) step by simp
  have "I row" if "row \<in> set p" for row
  proof -
    from decode_step_rows [OF step that] obtain r t
      where r: "r \<in> set pred" and row: "row = r @ [int t]"
        and t: "0 < vocab_size tk \<longrightarrow> t < vocab_size tk"
      by (elim exE conjE)
    have "I r" using r by (rule Suc.prems(1))
    then have "I (r @ [int t])" using t by (rule keep)
    then show ?thesis by (simp only: row)
  qed
  then show ?case using rest by (rule Suc.IH)
qed


text \<open>The definitions a worked example unfolds.\<close>

lemmas example_defs =
  decode_def decode_step_def char_tokenizer_def constant_network_def initial_tokens_dec_def
  dec_mask_of_def never_pick_padded_def argmax_def last_position_def numeral_2_eq_2
  sample_token_ids_def prune_predicted_def prune_tokens_def decode_masks_def all_active_def

lemma prune_predicted_rows:
  assumes "prune_predicted tk pred = Inr seqs" "s \<in> set seqs"
  shows "\<exists>row \<in> set pred. prune_tokens (eos_id tk) (pad_id tk) row = Inr s"
  using list_all2_right_mem [OF map_exn_Inr] assms unfolding prune_predicted_def by fast

lemma decode_rows:
  assumes "decode tk net te em n = Inr pred" "row \<in> set pred"
  shows "row \<noteq> [] \<and> hd row = bos_id tk"
proof -
  let ?hs = "enc_output net te em"
  have loop: "decode_loop tk net te em ?hs n (initial_tokens_dec tk te) = Inr pred"
    using assms(1)
    by (cases "decode_loop tk net te em ?hs n (initial_tokens_dec tk te)")
       (simp_all add: decode_def split: if_splits)
  have "\<forall>row \<in> set pred. row \<noteq> [] \<and> hd row = bos_id tk"
  proof (rule decode_loop_invariant [OF _ _ loop])
    fix row assume "row \<in> set (initial_tokens_dec tk te)"
    then show "row \<noteq> [] \<and> hd row = bos_id tk" by (auto simp: initial_tokens_dec_def)
  next
    fix row :: "int list" and t :: nat
    assume "row \<noteq> [] \<and> hd row = bos_id tk"
    then show "row @ [int t] \<noteq> [] \<and> hd (row @ [int t]) = bos_id tk" by simp
  qed
  with assms(2) show ?thesis by blast
qed

text \<open>
  C10, as stated, fails for a tokenizer whose begin-of-sequence id is its pad
  id or its end-of-sequence id. With begin-of-sequence and pad id 0 and
  end-of-sequence id 3, a network that always selects id 5 makes \<open>decode\<close>
  return \<open>[0, 5, 5]\<close>; no end-of-sequence id occurs, the pad filter removes the
  leading 0, and the pruned sequence \<open>[5, 5]\<close> is not empty and does not start
  with the begin-of-sequence id. With begin-of-sequence and end-of-sequence id
  3, \<open>decode\<close> returns \<open>[3, 5, 5]\<close> and pruning cuts at position 0: the leading
  id is removed with everything else.
\<close>

theorem sample_token_ids_bos_counterexample:
  "decode (char_tokenizer 0 0 3 8) (constant_network [1, 1, 1, 1, 1, 9, 1]) [[7, 8]] [[1, 1]] 2
     = Inr [[0, 5, 5]]
   \<and> sample_token_ids (char_tokenizer 0 0 3 8) (constant_network [1, 1, 1, 1, 1, 9, 1])
        [[7, 8]] [[1, 1]] 2 = Inr [[5, 5]]
   \<and> bos_id (char_tokenizer 0 0 3 8) = 0
   \<and> decode (char_tokenizer 0 3 3 8) (constant_network [1, 1, 1, 1, 1, 9, 1]) [[7, 8]] [[1, 1]] 2
     = Inr [[3, 5, 5]]
   \<and> sample_token_ids (char_tokenizer 0 3 3 8) (constant_network [1, 1, 1, 1, 1, 9, 1])
        [[7, 8]] [[1, 1]] 2 = Inr [[]]"
  by (simp add: example_defs)

lemma hd_filter: "filter P xs \<noteq> [] \<Longrightarrow> P (hd (filter P xs))"
  by (induction xs) auto

lemma prune_tokens_keeps_bos:
  assumes "prune_tokens eos pad (bos # rest) = Inr s"
  shows "(s \<noteq> [] \<and> hd s = bos) = (bos \<noteq> eos \<and> (bos \<noteq> pad \<or> eos \<in> set (bos # rest)))"
proof (cases "eos \<in> set (bos # rest)")
  case True
  then have "s = takeWhile (\<lambda>x. x \<noteq> eos) (bos # rest)"
    using assms by (simp add: prune_tokens_eq)
  then show ?thesis using True by (cases "bos = eos") simp_all
next
  case False
  then have s: "s = filter (\<lambda>x. x \<noteq> pad) (bos # rest)"
    using assms by (simp add: prune_tokens_eq)
  from False have ne: "bos \<noteq> eos" by auto
  show ?thesis
  proof (cases "bos = pad")
    case True
    then have s': "s = filter (\<lambda>x. x \<noteq> pad) rest" using s by simp
    have "\<not> (s \<noteq> [] \<and> hd s = bos)"
    proof
      assume a: "s \<noteq> [] \<and> hd s = bos"
      then have "hd s \<noteq> pad" unfolding s' using hd_filter [of "\<lambda>x. x \<noteq> pad" rest] by blast
      with a True show False by simp
    qed
    with True False show ?thesis by simp
  next
    case False
    then show ?thesis using s ne by simp
  qed
qed

text \<open>
  C10, amended. When \<open>sample_molecules\<close> reaches its pruned sequences, they
  are, row by row, the pruning of what \<open>decode\<close> returned. Every sequence
  \<open>decode\<close> returned is non-empty and begins with the begin-of-sequence id; no
  pruned sequence holds the end-of-sequence id; and pruning keeps the leading
  begin-of-sequence id of a row (the pruned row is non-empty and begins with
  it) exactly when that id is not the end-of-sequence id and either is not the
  pad id or the row holds an end-of-sequence id. So when the begin-of-sequence
  id differs from both the pad id and the end-of-sequence id, every pruned
  sequence is non-empty and begins with the begin-of-sequence id.
\<close>

theorem sample_token_ids_invariants:
  assumes "sample_token_ids tk net te em n = Inr seqs"
  shows "\<exists>pred. decode tk net te em n = Inr pred \<and> prune_predicted tk pred = Inr seqs
           \<and> length seqs = length pred
           \<and> (\<forall>i<length pred. pred ! i \<noteq> [] \<and> hd (pred ! i) = bos_id tk
                \<and> eos_id tk \<notin> set (seqs ! i)
                \<and> ((seqs ! i \<noteq> [] \<and> hd (seqs ! i) = bos_id tk)
                     = (bos_id tk \<noteq> eos_id tk
                        \<and> (bos_id tk \<noteq> pad_id tk \<or> eos_id tk \<in> set (pred ! i)))))
           \<and> (bos_id tk \<noteq> pad_id tk \<and> bos_id tk \<noteq> eos_id tk
                \<longrightarrow> (\<forall>s \<in> set seqs. s \<noteq> [] \<and> hd s = bos_id tk))"
proof -
  obtain pred where dec: "decode tk net te em n = Inr pred"
    using assms by (cases "decode tk net te em n") (simp_all add: sample_token_ids_def)
  have pr: "prune_predicted tk pred = Inr seqs"
    using assms dec by (simp add: sample_token_ids_def)
  have la: "list_all2 (\<lambda>row s. prune_tokens (eos_id tk) (pad_id tk) row = Inr s) pred seqs"
    using pr unfolding prune_predicted_def by (rule map_exn_Inr)
  then have len: "length seqs = length pred" by (simp add: list_all2_lengthD)
  have rows: "pred ! i \<noteq> [] \<and> hd (pred ! i) = bos_id tk
      \<and> eos_id tk \<notin> set (seqs ! i)
      \<and> ((seqs ! i \<noteq> [] \<and> hd (seqs ! i) = bos_id tk)
           = (bos_id tk \<noteq> eos_id tk
              \<and> (bos_id tk \<noteq> pad_id tk \<or> eos_id tk \<in> set (pred ! i))))"
    if i: "i < length pred" for i
  proof -
    have p: "prune_tokens (eos_id tk) (pad_id tk) (pred ! i) = Inr (seqs ! i)"
      using la i by (rule list_all2_nthD)
    have "pred ! i \<in> set pred" using i by simp
    from decode_rows [OF dec this] have ne: "pred ! i \<noteq> []" and h: "hd (pred ! i) = bos_id tk"
      by simp_all
    then obtain rest where r: "pred ! i = bos_id tk # rest" by (cases "pred ! i") auto
    have "eos_id tk \<notin> set (seqs ! i)" using p by (rule prune_tokens_no_eos)
    moreover note prune_tokens_keeps_bos [OF p [unfolded r], folded r]
    ultimately show ?thesis using ne h by simp
  qed
  have all: "\<forall>s \<in> set seqs. s \<noteq> [] \<and> hd s = bos_id tk"
    if d: "bos_id tk \<noteq> pad_id tk \<and> bos_id tk \<noteq> eos_id tk"
  proof
    fix s assume "s \<in> set seqs"
    then obtain i where i: "i < length seqs" and s: "seqs ! i = s"
      by (auto simp: in_set_conv_nth)
    from i len have "i < length pred" by simp
    from rows [OF this] d show "s \<noteq> [] \<and> hd s = bos_id tk" unfolding s by simp
  qed
  show ?thesis
    using dec pr len rows all by (intro exI [of _ pred] conjI allI impI) simp_all
qed

theorem sample_token_ids_invariants_witness:
  "sample_token_ids (char_tokenizer 0 2 3 4)
     (scripted_network [[1, 5, 1, 1], [5, 1, 1, 1], [1, 1, 1, 5], [1, 5, 1, 1]])
     [[7, 8], [9]] [[1, 1], [1, 0]] 4 = Inr [[2, 1, 0], [2, 1, 0]]
   \<and> [2, 1, 0 :: int] \<noteq> [] \<and> hd [2, 1, 0 :: int] = 2"
proof -
  let ?tk = "char_tokenizer 0 2 3 4"
  have e: "sample_token_ids ?tk
      (scripted_network [[1, 5, 1, 1], [5, 1, 1, 1], [1, 1, 1, 5], [1, 5, 1, 1]])
      [[7, 8], [9]] [[1, 1], [1, 0]] 4 = Inr [[2, 1, 0], [2, 1, 0]]"
    by code_simp
  have d: "bos_id ?tk \<noteq> pad_id ?tk \<and> bos_id ?tk \<noteq> eos_id ?tk"
    by (simp add: char_tokenizer_def)
  from sample_token_ids_invariants [OF e] obtain pred :: "int list list"
    where imp: "bos_id ?tk \<noteq> pad_id ?tk \<and> bos_id ?tk \<noteq> eos_id ?tk
      \<longrightarrow> (\<forall>s \<in> set [[2, 1, 0], [2, 1, 0 :: int]]. s \<noteq> [] \<and> hd s = bos_id ?tk)"
    by (elim exE conjE)
  from imp d
  have "\<forall>s \<in> set [[2, 1, 0], [2, 1, 0 :: int]]. s \<noteq> [] \<and> hd s = bos_id ?tk"
    by (rule mp)
  then have "[2, 1, 0 :: int] \<noteq> [] \<and> hd [2, 1, 0 :: int] = bos_id ?tk" by simp
  then have "[2, 1, 0 :: int] \<noteq> [] \<and> hd [2, 1, 0 :: int] = 2"
    by (simp add: char_tokenizer_def)
  with e show ?thesis ..
qed
















section \<open>Properties of the molecule enumeration\<close>

text \<open>
  C4. Augmentation is requested, the string parses, and rendering the
  renumbered molecule raises \<open>RuntimeError\<close>. Then whatever
  \<open>_smiles_augmeter_func\<close> returns has as variant the canonical rendering of
  the unmodified molecule, which is the canonical target when
  \<open>canonicalize_input\<close> is set (the target is the input string otherwise), and
  the result does not depend on the permutation drawn; and it does return that
  result whenever the canonical rendering succeeds with a non-empty string (and
  the input string is non-empty when it is the target).
\<close>

theorem smiles_augmeter_func_fallback:
  assumes parse: "MolFromSmiles c smiles = Some m"
    and draw: "shuffle c [0..<GetNumAtoms c m] w = (atom_order, w')"
    and renumber: "RenumberAtoms c m atom_order = Inr aug_mol"
    and fail: "MolToSmiles c aug_mol False = Inl RuntimeError"
  shows "(\<forall>variant target w''.
            smiles_augmeter_func cfg c smiles True w = Inr ((variant, target), w'')
            \<longrightarrow> w'' = w' \<and> MolToSmiles c m True = Inr variant
                \<and> target = (if canonicalize_input cfg then variant else smiles))
         \<and> (\<forall>cs. MolToSmiles c m True = Inr cs \<and> cs \<noteq> []
                  \<and> (canonicalize_input cfg \<or> smiles \<noteq> [])
            \<longrightarrow> smiles_augmeter_func cfg c smiles True w
                  = Inr ((cs, if canonicalize_input cfg then cs else smiles), w'))"
proof (cases "MolToSmiles c m True")
  case (Inl e)
  then show ?thesis
    using parse draw renumber fail
    by (simp add: smiles_augmeter_func_def mol_to_smiles_def Let_def)
next
  case (Inr cs)
  then show ?thesis
    using parse draw renumber fail
    by (auto simp: smiles_augmeter_func_def mol_to_smiles_def Let_def split: if_splits)
qed


theorem smiles_augmeter_func_fallback_witness:
  "smiles_augmeter_func (example_config 10 True False) (failing_chem [''CO'']) ''CO'' True 0
     = Inr ((''OC'', ''OC''), 1)
   \<and> smiles_augmeter_func (example_config 10 False False) (failing_chem [''CO'']) ''CO'' True 0
     = Inr ((''OC'', ''CO''), 1)"
proof -
  let ?c = "failing_chem [''CO'']"
  have parse: "MolFromSmiles ?c ''CO'' = Some ''CO''" by (simp add: failing_chem_def)
  have draw: "shuffle ?c [0..<GetNumAtoms ?c ''CO''] 0 = ([1, 0], 1)"
    by (simp add: failing_chem_def upt_rec)
  have renumber: "RenumberAtoms ?c ''CO'' [1, 0] = Inr ''CO''" by (simp add: failing_chem_def)
  have fail: "MolToSmiles ?c ''CO'' False = Inl RuntimeError" by (simp add: failing_chem_def)
  have canon: "MolToSmiles ?c ''CO'' True = Inr ''OC''" by (simp add: failing_chem_def)
  note fb = smiles_augmeter_func_fallback [OF parse draw renumber fail, THEN conjunct2,
      rule_format, of "''OC''"]
  from fb [of "example_config 10 True False"] canon
  have a: "smiles_augmeter_func (example_config 10 True False) ?c ''CO'' True 0
      = Inr ((''OC'', ''OC''), 1)"
    by (simp add: example_config_def)
  from fb [of "example_config 10 False False"] canon
  have b: "smiles_augmeter_func (example_config 10 False False) ?c ''CO'' True 0
      = Inr ((''OC'', ''CO''), 1)"
    by (simp add: example_config_def)
  from a b show ?thesis ..
qed

lemma py_max_Max: "xs \<noteq> [] \<Longrightarrow> py_max xs = Inr (Max (set xs))"
proof (cases xs)
  case Nil
  assume "xs \<noteq> []"
  with Nil show ?thesis by simp
next
  case (Cons y ys)
  have "fold max ys y = Max (set (y # ys))" by (rule Max.set_eq_fold [symmetric])
  then show ?thesis unfolding Cons by (simp add: py_max_def)
qed

lemma slice_to_nonneg: "0 \<le> n \<Longrightarrow> slice_to n = take (nat n)"
  by (rule ext) (simp add: slice_to_def)

text \<open>
  C2. For a non-empty batch, \<open>_check_seq_len\<close> returns the sequences and
  masks unchanged when the longest sequence of the batch is not longer than
  \<open>seq_length\<close>; otherwise it returns every sequence and every mask sliced
  with \<open>[:seq_length]\<close>, which for a \<open>seq_length\<close> that is not negative is
  its first \<open>seq_length\<close> positions.
\<close>

theorem check_seq_len_spec:
  assumes "tokens \<noteq> []"
  shows "(int (Max (length ` set tokens)) \<le> seq_length cfg
            \<longrightarrow> check_seq_len cfg tokens masks = Inr (tokens, masks))
         \<and> (seq_length cfg < int (Max (length ` set tokens))
            \<longrightarrow> check_seq_len cfg tokens masks
                  = Inr (map (slice_to (seq_length cfg)) tokens,
                         map (slice_to (seq_length cfg)) masks)
                \<and> (0 \<le> seq_length cfg
                    \<longrightarrow> check_seq_len cfg tokens masks
                          = Inr (map (take (nat (seq_length cfg))) tokens,
                                 map (take (nat (seq_length cfg))) masks)))"
proof -
  have "map length tokens \<noteq> []" using assms by simp
  then have "py_max (map length tokens) = Inr (Max (set (map length tokens)))"
    by (rule py_max_Max)
  then have m: "py_max (map length tokens) = Inr (Max (length ` set tokens))" by simp
  show ?thesis
    by (simp add: check_seq_len_def m slice_to_nonneg)
qed

theorem check_seq_len_spec_witness:
  "check_seq_len (example_config 3 False False) [''CCO'', ''C''] [[True, True, True], [True]]
     = Inr ([''CCO'', ''C''], [[True, True, True], [True]])
   \<and> check_seq_len (example_config 2 False False) [''CCO'', ''C''] [[True, True, True], [True]]
     = Inr ([''CC'', ''C''], [[True, True], [True]])"
proof -
  have ne: "[''CCO'', ''C''] \<noteq> []" by simp
  have mx: "Max (length ` set [''CCO'', ''C'']) = 3" by simp
  from check_seq_len_spec [OF ne, of "example_config 3 False False"
      "[[True, True, True], [True]]"]
  have a: "check_seq_len (example_config 3 False False) [''CCO'', ''C'']
      [[True, True, True], [True]] = Inr ([''CCO'', ''C''], [[True, True, True], [True]])"
    unfolding mx by (simp add: example_config_def)
  from check_seq_len_spec [OF ne, of "example_config 2 False False"
      "[[True, True, True], [True]]"]
  have b: "check_seq_len (example_config 2 False False) [''CCO'', ''C'']
      [[True, True, True], [True]] = Inr ([''CC'', ''C''], [[True, True], [True]])"
    unfolding mx by (simp add: example_config_def slice_to_def)
  from a b show ?thesis ..
qed

section \<open>Properties of padding and collation\<close>

lemma ceil8_ge: "n \<le> ceil8 n"
  unfolding ceil8_def by presburger

lemma ceil8_dvd: "8 dvd ceil8 n"
  by (simp add: ceil8_def)

lemma pad_seqs_Inr:
  assumes "pad_seqs cfg seqs p = Inr (padded, masks)"
  shows "seqs \<noteq> []"
    and "padded = map (\<lambda>s. s @ replicate (pad_width cfg seqs - length s) p) seqs"
    and "masks = map (\<lambda>s. replicate (length s) 1 @ replicate (pad_width cfg seqs - length s) 0) seqs"
proof -
  show ne: "seqs \<noteq> []" using assms by (auto simp: pad_seqs_def py_max_def)
  then have "map length seqs \<noteq> []" by simp
  then have "py_max (map length seqs) = Inr (Max (set (map length seqs)))" by (rule py_max_Max)
  then have m: "py_max (map length seqs) = Inr (Max (length ` set seqs))" by simp
  show "padded = map (\<lambda>s. s @ replicate (pad_width cfg seqs - length s) p) seqs"
    using assms by (simp add: pad_seqs_def m pad_width_def Let_def)
  show "masks = map (\<lambda>s. replicate (length s) 1 @ replicate (pad_width cfg seqs - length s) 0) seqs"
    using assms by (simp add: pad_seqs_def m pad_width_def Let_def)
qed

lemma pad_width_ge: "s \<in> set seqs \<Longrightarrow> length s \<le> pad_width cfg seqs"
proof -
  assume "s \<in> set seqs"
  then have "length s \<le> Max (length ` set seqs)" by (intro Max_ge) auto
  then show ?thesis using ceil8_ge [of "Max (length ` set seqs)"]
    by (simp add: pad_width_def)
qed

lemma pad_width_dvd: "pad_size_divisible_by_8 cfg \<Longrightarrow> 8 dvd pad_width cfg seqs"
  by (simp add: pad_width_def ceil8_dvd)

lemma pad_width_cong:
  "map length xs = map length ys \<Longrightarrow> pad_width cfg xs = pad_width cfg ys"
proof -
  assume "map length xs = map length ys"
  then have "set (map length xs) = set (map length ys)" by simp
  then have "length ` set xs = length ` set ys" by simp
  then show ?thesis by (simp add: pad_width_def)
qed

lemma tensor_Inr: "tensor rows = Inr t \<Longrightarrow> t = rows"
  by (simp add: tensor_def split: if_splits)

lemma masked_assign_map:
  "masked_assign (map f xs) (map g xs) v
     = map (\<lambda>x. map2 (\<lambda>y b. if b = 0 then v else y) (f x) (g x)) xs"
  by (induction xs) (simp_all add: masked_assign_def)

lemma masked_row:
  "map2 (\<lambda>y b. if b = 0 then v else y) (ys @ replicate k p)
        (replicate (length ys) (1::int) @ replicate k 0)
     = ys @ replicate k v"
proof -
  have a: "map2 (\<lambda>y b. if b = 0 then v else y) ys (replicate (length ys) (1::int)) = ys"
    by (induction ys) simp_all
  have b: "map2 (\<lambda>y b. if b = 0 then v else y) (replicate k p) (replicate k (0::int))
      = replicate k v"
    by (induction k) simp_all
  show ?thesis by (simp add: zip_append a b)
qed


lemma collate_decoder_Inr:
  assumes "collate_decoder cfg tk ids label_pad = Inr (d, dm, l, lm)"
  defines "W \<equiv> pad_width cfg (map (\<lambda>e. bos_id tk # e) ids)"
  shows "ids \<noteq> []"
    and "d = map (\<lambda>e. (bos_id tk # e) @ replicate (W - Suc (length e)) (pad_id tk)) ids"
    and "dm = map (\<lambda>e. replicate (Suc (length e)) 1 @ replicate (W - Suc (length e)) 0) ids"
    and "l = map (\<lambda>e. (e @ [eos_id tk]) @ replicate (W - Suc (length e)) label_pad) ids"
    and "lm = dm"
proof -
  let ?dec = "map (\<lambda>e. bos_id tk # e) ids"
  let ?lab = "map (\<lambda>e. e @ [eos_id tk]) ids"
  obtain dp dmr where p1: "pad_seqs cfg ?dec (pad_id tk) = Inr (dp, dmr)"
    using assms(1) by (cases "pad_seqs cfg ?dec (pad_id tk)") (auto simp: collate_decoder_def)
  obtain dt where t1: "tensor dp = Inr dt"
    using assms(1) p1 by (cases "tensor dp") (auto simp: collate_decoder_def)
  obtain dmt where t2: "tensor dmr = Inr dmt"
    using assms(1) p1 t1 by (cases "tensor dmr") (auto simp: collate_decoder_def)
  obtain lp lmr where p2: "pad_seqs cfg ?lab (pad_id tk) = Inr (lp, lmr)"
    using assms(1) p1 t1 t2
    by (cases "pad_seqs cfg ?lab (pad_id tk)") (auto simp: collate_decoder_def)
  obtain lt where t3: "tensor lp = Inr lt"
    using assms(1) p1 t1 t2 p2 by (cases "tensor lp") (auto simp: collate_decoder_def)
  obtain lmt where t4: "tensor lmr = Inr lmt"
    using assms(1) p1 t1 t2 p2 t3 by (cases "tensor lmr") (auto simp: collate_decoder_def)
  have res: "d = dt" "dm = dmt" "l = masked_assign lt lmt label_pad" "lm = lmt"
    using assms(1) p1 t1 t2 p2 t3 t4 by (auto simp: collate_decoder_def)
  have eqs: "dt = dp" "dmt = dmr" "lt = lp" "lmt = lmr"
    using t1 t2 t3 t4 by (simp_all add: tensor_Inr)
  have "?dec \<noteq> []" using p1 by (rule pad_seqs_Inr(1))
  then show "ids \<noteq> []" by simp
  have wl: "pad_width cfg ?lab = W"
    unfolding W_def by (rule pad_width_cong) simp
  have dp: "dp = map (\<lambda>e. (bos_id tk # e) @ replicate (W - Suc (length e)) (pad_id tk)) ids"
    using pad_seqs_Inr(2) [OF p1] by (simp add: W_def o_def)
  have dmr: "dmr = map (\<lambda>e. replicate (Suc (length e)) 1 @ replicate (W - Suc (length e)) 0) ids"
    using pad_seqs_Inr(3) [OF p1] by (simp add: W_def o_def)
  have lp: "lp = map (\<lambda>e. (e @ [eos_id tk]) @ replicate (W - Suc (length e)) (pad_id tk)) ids"
    using pad_seqs_Inr(2) [OF p2] by (simp add: wl o_def)
  have lmr: "lmr = map (\<lambda>e. replicate (length (e @ [eos_id tk])) 1
                               @ replicate (W - Suc (length e)) 0) ids"
    using pad_seqs_Inr(3) [OF p2] by (simp add: wl o_def)
  show "d = map (\<lambda>e. (bos_id tk # e) @ replicate (W - Suc (length e)) (pad_id tk)) ids"
    using res(1) eqs(1) dp by simp
  show "dm = map (\<lambda>e. replicate (Suc (length e)) 1 @ replicate (W - Suc (length e)) 0) ids"
    using res(2) eqs(2) dmr by simp
  show "lm = dm" using res(2,4) eqs(2,4) dmr lmr by simp
  have "masked_assign lp lmr label_pad
      = map (\<lambda>e. (e @ [eos_id tk]) @ replicate (W - Suc (length e)) label_pad) ids"
    unfolding lp lmr masked_assign_map by (simp only: masked_row)
  then show "l = map (\<lambda>e. (e @ [eos_id tk]) @ replicate (W - Suc (length e)) label_pad) ids"
    using res(3) eqs(3,4) by simp
qed

lemma collate_fn_Inr:
  assumes "collate_fn cfg c tk batch label_pad w = Inr (out, w')"
  obtains etoks em et w1 dtoks dmk dt where
    "prepare_tokens cfg c tk batch (encoder_augment cfg) (encoder_mask cfg) w
       = Inr ((etoks, em, et), w1)"
    "pad_seqs cfg (convert_tokens_to_ids tk etoks) (pad_id tk) = Inr (text_enc out, enc_mask out)"
    "prepare_tokens cfg c tk batch (decoder_augment cfg) (decoder_mask cfg) w1
       = Inr ((dtoks, dmk, dt), w')"
    "collate_decoder cfg tk (convert_tokens_to_ids tk dtoks) label_pad
       = Inr (text_dec out, dec_mask out, labels out, loss_mask out)"
    "target_smiles out = et"
proof -
  let ?pe = "prepare_tokens cfg c tk batch (encoder_augment cfg) (encoder_mask cfg) w"
  obtain etoks em et w1 where pe: "?pe = Inr ((etoks, em, et), w1)"
    using assms by (cases ?pe) (auto simp: collate_fn_def)
  let ?ps = "pad_seqs cfg (convert_tokens_to_ids tk etoks) (pad_id tk)"
  obtain ep emr where ps: "?ps = Inr (ep, emr)"
    using assms pe by (cases ?ps) (auto simp: collate_fn_def)
  obtain e1 where t1: "tensor ep = Inr e1"
    using assms pe ps by (cases "tensor ep") (auto simp: collate_fn_def)
  obtain e2 where t2: "tensor emr = Inr e2"
    using assms pe ps t1 by (cases "tensor emr") (auto simp: collate_fn_def)
  let ?pd = "prepare_tokens cfg c tk batch (decoder_augment cfg) (decoder_mask cfg) w1"
  obtain dtoks dmk dt w2 where pd: "?pd = Inr ((dtoks, dmk, dt), w2)"
    using assms pe ps t1 t2 by (cases ?pd) (auto simp: collate_fn_def)
  let ?cd = "collate_decoder cfg tk (convert_tokens_to_ids tk dtoks) label_pad"
  obtain d dm l lm where cd: "?cd = Inr (d, dm, l, lm)"
    using assms pe ps t1 t2 pd by (cases ?cd) (auto simp: collate_fn_def)
  have out: "out = \<lparr>text_enc = e1, enc_mask = e2, text_dec = d, dec_mask = dm,
      labels = l, loss_mask = lm, target_smiles = et\<rparr>" and w: "w' = w2"
    using assms pe ps t1 t2 pd cd by (auto simp: collate_fn_def)
  have e: "e1 = ep" "e2 = emr" using t1 t2 by (simp_all add: tensor_Inr)
  show ?thesis
  proof (rule that [of etoks em et w1 dtoks dmk dt])
    show "?pe = Inr ((etoks, em, et), w1)" by (rule pe)
    show "?ps = Inr (text_enc out, enc_mask out)" using ps e by (simp add: out)
    show "?pd = Inr ((dtoks, dmk, dt), w')" using pd w by simp
    show "?cd = Inr (text_dec out, dec_mask out, labels out, loss_mask out)"
      using cd by (simp add: out)
    show "target_smiles out = et" by (simp add: out)
  qed
qed

lemma count_list_replicate: "count_list (replicate k p) p = k"
  by (induction k) simp_all

lemma filter_zero_mask:
  "length (filter (\<lambda>m. m = 0) (replicate n (1::int) @ replicate k 0)) = k"
  by simp

lemma padded_row_length:
  "length s \<le> W \<Longrightarrow> length (s @ replicate (W - length s) p) = W"
  by simp

lemma label_row_nth:
  assumes "Suc (length e) \<le> W" "j < W"
  shows "((e @ [eos]) @ replicate (W - Suc (length e)) lp) ! j
           = (if j \<le> length e then (e @ [eos]) ! j else lp)"
    and "(replicate (Suc (length e)) (1::int) @ replicate (W - Suc (length e)) 0) ! j
           = (if j \<le> length e then 1 else 0)"
  using assms by (auto simp: nth_append simp del: replicate_Suc append_assoc)

lemma example_collate:
  "collate_fn (example_config 10 True True) (failing_chem []) (char_tokenizer 0 2 3 256)
     [''CO'', ''C''] (- 1) 0 = Inr (example_output, 0)"
  by code_simp

lemma example_prepare:
  "prepare_tokens (example_config 10 True True) (failing_chem []) (char_tokenizer 0 2 3 256)
     [''CO'', ''C''] False False 0
   = Inr (([''CO'', ''C''], [[True, True], [True]], [''OC'', ''C'']), 0)"
  by code_simp

lemma example_ids:
  "convert_tokens_to_ids (char_tokenizer 0 2 3 256) [''CO'', ''C''] = [[67, 79], [67]]"
  by code_simp

lemma example_flags:
  "encoder_augment (example_config 10 True True) = False"
  "encoder_mask (example_config 10 True True) = False"
  "decoder_augment (example_config 10 True True) = False"
  "decoder_mask (example_config 10 True True) = False"
  "pad_size_divisible_by_8 (example_config 10 True True) = True"
  "eos_id (char_tokenizer 0 2 3 256) = 3"
  "bos_id (char_tokenizer 0 2 3 256) = 2"
  "pad_id (char_tokenizer 0 2 3 256) = 0"
  by (simp_all add: example_config_def char_tokenizer_def)


text \<open>
  C1. In the batch \<open>collate_fn\<close> returns, \<open>labels\<close> and \<open>loss_mask\<close> have one
  row per decoder sequence and rows of one length; every entry of the loss mask
  is 0 or 1; where it is 0 the label is \<open>label_pad\<close>, and where it is 1 the
  label is the entry, at that position, of the row's decoder token ids followed
  by the end-of-sequence id. The decoder token ids are the ids of the tokens
  the decoder call of \<open>_prepare_tokens\<close> returned. The loss mask is 1 exactly on
  the positions of those ids and of the end-of-sequence id.
\<close>

theorem collate_fn_labels:
  assumes "collate_fn cfg c tk batch label_pad w = Inr (out, w')"
  shows "\<exists>etoks em et w1 dtoks dmk dt.
           prepare_tokens cfg c tk batch (encoder_augment cfg) (encoder_mask cfg) w
             = Inr ((etoks, em, et), w1)
         \<and> prepare_tokens cfg c tk batch (decoder_augment cfg) (decoder_mask cfg) w1
             = Inr ((dtoks, dmk, dt), w')
         \<and> length (labels out) = length (convert_tokens_to_ids tk dtoks)
         \<and> length (loss_mask out) = length (convert_tokens_to_ids tk dtoks)
         \<and> (\<forall>i<length (convert_tokens_to_ids tk dtoks).
               length (loss_mask out ! i) = length (labels out ! i)
             \<and> length (convert_tokens_to_ids tk dtoks ! i) < length (labels out ! i)
             \<and> (\<forall>j<length (labels out ! i).
                   (loss_mask out ! i ! j = 0 \<or> loss_mask out ! i ! j = 1)
                 \<and> ((loss_mask out ! i ! j = 1)
                      = (j \<le> length (convert_tokens_to_ids tk dtoks ! i)))
                 \<and> (loss_mask out ! i ! j = 0 \<longrightarrow> labels out ! i ! j = label_pad)
                 \<and> (loss_mask out ! i ! j = 1 \<longrightarrow>
                       labels out ! i ! j
                         = (convert_tokens_to_ids tk dtoks ! i @ [eos_id tk]) ! j)))"
proof -
  from assms obtain etoks em et w1 dtoks dmk dt where
    pe: "prepare_tokens cfg c tk batch (encoder_augment cfg) (encoder_mask cfg) w
       = Inr ((etoks, em, et), w1)" and
    pd: "prepare_tokens cfg c tk batch (decoder_augment cfg) (decoder_mask cfg) w1
       = Inr ((dtoks, dmk, dt), w')" and
    cd: "collate_decoder cfg tk (convert_tokens_to_ids tk dtoks) label_pad
       = Inr (text_dec out, dec_mask out, labels out, loss_mask out)"
    by (rule collate_fn_Inr)
  define ids where "ids = convert_tokens_to_ids tk dtoks"
  define W where "W = pad_width cfg (map (\<lambda>e. bos_id tk # e) ids)"
  note st = collate_decoder_Inr [OF cd, folded ids_def, folded W_def]
  have l: "labels out = map (\<lambda>e. (e @ [eos_id tk]) @ replicate (W - Suc (length e)) label_pad) ids"
    by (rule st(4))
  have m: "loss_mask out
      = map (\<lambda>e. replicate (Suc (length e)) 1 @ replicate (W - Suc (length e)) 0) ids"
    using st(3,5) by simp
  have fits: "Suc (length (ids ! i)) \<le> W" if "i < length ids" for i
  proof -
    have "bos_id tk # ids ! i \<in> set (map (\<lambda>e. bos_id tk # e) ids)" using that by simp
    from pad_width_ge [OF this, of cfg] show ?thesis by (simp add: W_def)
  qed
  have rows: "length (loss_mask out ! i) = length (labels out ! i)
      \<and> length (ids ! i) < length (labels out ! i)
      \<and> (\<forall>j<length (labels out ! i).
            (loss_mask out ! i ! j = 0 \<or> loss_mask out ! i ! j = 1)
          \<and> ((loss_mask out ! i ! j = 1) = (j \<le> length (ids ! i)))
          \<and> (loss_mask out ! i ! j = 0 \<longrightarrow> labels out ! i ! j = label_pad)
          \<and> (loss_mask out ! i ! j = 1 \<longrightarrow>
                labels out ! i ! j = (ids ! i @ [eos_id tk]) ! j))"
    if i: "i < length ids" for i
  proof -
    let ?e = "ids ! i"
    have li: "labels out ! i = (?e @ [eos_id tk]) @ replicate (W - Suc (length ?e)) label_pad"
      using i by (simp add: l)
    have mi: "loss_mask out ! i
        = replicate (Suc (length ?e)) 1 @ replicate (W - Suc (length ?e)) 0"
      using i by (simp add: m)
    have f: "Suc (length ?e) \<le> W" using i by (rule fits)
    have ll: "length (labels out ! i) = W" unfolding li using f by simp
    have lm: "length (loss_mask out ! i) = W" unfolding mi using f by simp
    have js: "(loss_mask out ! i ! j = 0 \<or> loss_mask out ! i ! j = 1)
          \<and> ((loss_mask out ! i ! j = 1) = (j \<le> length ?e))
          \<and> (loss_mask out ! i ! j = 0 \<longrightarrow> labels out ! i ! j = label_pad)
          \<and> (loss_mask out ! i ! j = 1 \<longrightarrow> labels out ! i ! j = (?e @ [eos_id tk]) ! j)"
      if j: "j < W" for j
      unfolding li mi label_row_nth [OF f j] by simp
    have a: "length (loss_mask out ! i) = length (labels out ! i)" using ll lm by simp
    have b: "length ?e < length (labels out ! i)" using ll f by simp
    have c: "\<forall>j<length (labels out ! i).
            (loss_mask out ! i ! j = 0 \<or> loss_mask out ! i ! j = 1)
          \<and> ((loss_mask out ! i ! j = 1) = (j \<le> length ?e))
          \<and> (loss_mask out ! i ! j = 0 \<longrightarrow> labels out ! i ! j = label_pad)
          \<and> (loss_mask out ! i ! j = 1 \<longrightarrow> labels out ! i ! j = (?e @ [eos_id tk]) ! j)"
      unfolding ll by (intro allI impI) (rule js)
    from a b c show ?thesis by blast
  qed
  have lens: "length (labels out) = length ids" "length (loss_mask out) = length ids"
    by (simp_all add: l m)
  have all: "\<forall>i<length ids.
      length (loss_mask out ! i) = length (labels out ! i)
      \<and> length (ids ! i) < length (labels out ! i)
      \<and> (\<forall>j<length (labels out ! i).
            (loss_mask out ! i ! j = 0 \<or> loss_mask out ! i ! j = 1)
          \<and> ((loss_mask out ! i ! j = 1) = (j \<le> length (ids ! i)))
          \<and> (loss_mask out ! i ! j = 0 \<longrightarrow> labels out ! i ! j = label_pad)
          \<and> (loss_mask out ! i ! j = 1 \<longrightarrow>
                labels out ! i ! j = (ids ! i @ [eos_id tk]) ! j))"
    by (intro allI impI) (rule rows)
  from pe pd lens all show ?thesis
    unfolding ids_def by blast
qed



theorem collate_fn_labels_witness:
  "collate_fn (example_config 10 True True) (failing_chem []) (char_tokenizer 0 2 3 256)
     [''CO'', ''C''] (- 1) 0 = Inr (example_output, 0)
   \<and> loss_mask example_output ! 0 ! 2 = 1 \<and> labels example_output ! 0 ! 2 = 3
   \<and> loss_mask example_output ! 0 ! 3 = 0 \<and> labels example_output ! 0 ! 3 = - 1"
proof -
  let ?cfg = "example_config 10 True True" and ?c = "failing_chem []"
  let ?tk = "char_tokenizer 0 2 3 256"
  from collate_fn_labels [OF example_collate] obtain etoks em et w1 dtoks dmk dt where
    pe: "prepare_tokens ?cfg ?c ?tk [''CO'', ''C''] (encoder_augment ?cfg) (encoder_mask ?cfg) 0
       = Inr ((etoks, em, et), w1)" and
    pd: "prepare_tokens ?cfg ?c ?tk [''CO'', ''C''] (decoder_augment ?cfg) (decoder_mask ?cfg) w1
       = Inr ((dtoks, dmk, dt), 0)" and
    rows: "\<forall>i<length (convert_tokens_to_ids ?tk dtoks).
               length (loss_mask example_output ! i) = length (labels example_output ! i)
             \<and> length (convert_tokens_to_ids ?tk dtoks ! i) < length (labels example_output ! i)
             \<and> (\<forall>j<length (labels example_output ! i).
                   (loss_mask example_output ! i ! j = 0 \<or> loss_mask example_output ! i ! j = 1)
                 \<and> ((loss_mask example_output ! i ! j = 1)
                      = (j \<le> length (convert_tokens_to_ids ?tk dtoks ! i)))
                 \<and> (loss_mask example_output ! i ! j = 0
                      \<longrightarrow> labels example_output ! i ! j = - 1)
                 \<and> (loss_mask example_output ! i ! j = 1 \<longrightarrow>
                       labels example_output ! i ! j
                         = (convert_tokens_to_ids ?tk dtoks ! i @ [eos_id ?tk]) ! j))"
    by (elim exE conjE)
  have w1: "w1 = 0" using pe by (simp add: example_flags example_prepare)
  have dtoks: "dtoks = [''CO'', ''C'']"
    using pd unfolding w1 by (simp add: example_flags example_prepare)
  have i0: "0 < length (convert_tokens_to_ids ?tk dtoks)"
    unfolding dtoks example_ids by simp
  note inner = rows [rule_format, OF i0, THEN conjunct2, THEN conjunct2, rule_format]
  have len: "length (labels example_output ! 0) = 8" by (simp add: example_output_def)
  have j2: "2 < length (labels example_output ! 0)" and j3: "3 < length (labels example_output ! 0)"
    unfolding len by simp_all
  from inner [OF j2]
  have a: "loss_mask example_output ! 0 ! 2 = 1 \<and> labels example_output ! 0 ! 2 = 3"
    unfolding dtoks example_ids example_flags by auto
  from inner [OF j3]
  have b: "loss_mask example_output ! 0 ! 3 = 0 \<and> labels example_output ! 0 ! 3 = - 1"
    unfolding dtoks example_ids example_flags by auto
  from example_collate a b show ?thesis by blast
qed



text \<open>
  C9. In the batch \<open>collate_fn\<close> returns, \<open>text_dec\<close> and \<open>labels\<close> have the
  same number of rows and every row of both has the same length, the one
  padded width that both padding computations arrive at; row by row, the
  decoder input is the begin-of-sequence id, the decoder token ids and pad ids,
  the labels are the same decoder token ids, the end-of-sequence id and
  \<open>label_pad\<close> entries; and the decoder mask is the loss mask.
\<close>

theorem collate_fn_dec_labels_shape:
  assumes "collate_fn cfg c tk batch label_pad w = Inr (out, w')"
  shows "\<exists>etoks em et w1 dtoks dmk dt W.
           prepare_tokens cfg c tk batch (encoder_augment cfg) (encoder_mask cfg) w
             = Inr ((etoks, em, et), w1)
         \<and> prepare_tokens cfg c tk batch (decoder_augment cfg) (decoder_mask cfg) w1
             = Inr ((dtoks, dmk, dt), w')
         \<and> W = pad_width cfg (map (\<lambda>e. bos_id tk # e) (convert_tokens_to_ids tk dtoks))
         \<and> W = pad_width cfg (map (\<lambda>e. e @ [eos_id tk]) (convert_tokens_to_ids tk dtoks))
         \<and> length (text_dec out) = length (convert_tokens_to_ids tk dtoks)
         \<and> length (labels out) = length (convert_tokens_to_ids tk dtoks)
         \<and> dec_mask out = loss_mask out
         \<and> (\<forall>i<length (convert_tokens_to_ids tk dtoks).
               length (text_dec out ! i) = W \<and> length (labels out ! i) = W
             \<and> Suc (length (convert_tokens_to_ids tk dtoks ! i)) \<le> W
             \<and> text_dec out ! i
                 = (bos_id tk # convert_tokens_to_ids tk dtoks ! i)
                   @ replicate (W - Suc (length (convert_tokens_to_ids tk dtoks ! i))) (pad_id tk)
             \<and> labels out ! i
                 = (convert_tokens_to_ids tk dtoks ! i @ [eos_id tk])
                   @ replicate (W - Suc (length (convert_tokens_to_ids tk dtoks ! i))) label_pad)"
proof -
  from assms obtain etoks em et w1 dtoks dmk dt where
    pe: "prepare_tokens cfg c tk batch (encoder_augment cfg) (encoder_mask cfg) w
       = Inr ((etoks, em, et), w1)" and
    pd: "prepare_tokens cfg c tk batch (decoder_augment cfg) (decoder_mask cfg) w1
       = Inr ((dtoks, dmk, dt), w')" and
    cd: "collate_decoder cfg tk (convert_tokens_to_ids tk dtoks) label_pad
       = Inr (text_dec out, dec_mask out, labels out, loss_mask out)"
    by (rule collate_fn_Inr)
  define ids where "ids = convert_tokens_to_ids tk dtoks"
  define W where "W = pad_width cfg (map (\<lambda>e. bos_id tk # e) ids)"
  note st = collate_decoder_Inr [OF cd, folded ids_def, folded W_def]
  have w2: "W = pad_width cfg (map (\<lambda>e. e @ [eos_id tk]) ids)"
    unfolding W_def by (rule pad_width_cong) simp
  have fits: "Suc (length (ids ! i)) \<le> W" if "i < length ids" for i
  proof -
    have "bos_id tk # ids ! i \<in> set (map (\<lambda>e. bos_id tk # e) ids)" using that by simp
    from pad_width_ge [OF this, of cfg] show ?thesis by (simp add: W_def)
  qed
  have lens: "length (text_dec out) = length ids" "length (labels out) = length ids"
    by (simp_all add: st(2,4))
  have masks: "dec_mask out = loss_mask out" using st(5) by simp
  have rows: "\<forall>i<length ids.
        length (text_dec out ! i) = W \<and> length (labels out ! i) = W
      \<and> Suc (length (ids ! i)) \<le> W
      \<and> text_dec out ! i = (bos_id tk # ids ! i) @ replicate (W - Suc (length (ids ! i))) (pad_id tk)
      \<and> labels out ! i = (ids ! i @ [eos_id tk]) @ replicate (W - Suc (length (ids ! i))) label_pad"
  proof (intro allI impI)
    fix i assume i: "i < length ids"
    have d: "text_dec out ! i
        = (bos_id tk # ids ! i) @ replicate (W - Suc (length (ids ! i))) (pad_id tk)"
      using i by (simp add: st(2))
    have l: "labels out ! i
        = (ids ! i @ [eos_id tk]) @ replicate (W - Suc (length (ids ! i))) label_pad"
      using i by (simp add: st(4))
    have f: "Suc (length (ids ! i)) \<le> W" using i by (rule fits)
    have "length (text_dec out ! i) = W" unfolding d using f by simp
    moreover have "length (labels out ! i) = W" unfolding l using f by simp
    ultimately show "length (text_dec out ! i) = W \<and> length (labels out ! i) = W
      \<and> Suc (length (ids ! i)) \<le> W
      \<and> text_dec out ! i = (bos_id tk # ids ! i) @ replicate (W - Suc (length (ids ! i))) (pad_id tk)
      \<and> labels out ! i = (ids ! i @ [eos_id tk]) @ replicate (W - Suc (length (ids ! i))) label_pad"
      using d l f by blast
  qed
  from pe pd W_def w2 lens masks rows show ?thesis
    unfolding ids_def by blast
qed


theorem collate_fn_dec_labels_shape_witness:
  "collate_fn (example_config 10 True True) (failing_chem []) (char_tokenizer 0 2 3 256)
     [''CO'', ''C''] (- 1) 0 = Inr (example_output, 0)
   \<and> length (text_dec example_output) = length (labels example_output)
   \<and> length (text_dec example_output ! 0) = length (labels example_output ! 0)
   \<and> length (text_dec example_output ! 1) = length (labels example_output ! 1)
   \<and> dec_mask example_output = loss_mask example_output"
proof -
  let ?cfg = "example_config 10 True True" and ?c = "failing_chem []"
  let ?tk = "char_tokenizer 0 2 3 256"
  from collate_fn_dec_labels_shape [OF example_collate] obtain etoks em et w1 dtoks dmk dt W where
    pe: "prepare_tokens ?cfg ?c ?tk [''CO'', ''C''] (encoder_augment ?cfg) (encoder_mask ?cfg) 0
       = Inr ((etoks, em, et), w1)" and
    pd: "prepare_tokens ?cfg ?c ?tk [''CO'', ''C''] (decoder_augment ?cfg) (decoder_mask ?cfg) w1
       = Inr ((dtoks, dmk, dt), 0)" and
    ld: "length (text_dec example_output) = length (convert_tokens_to_ids ?tk dtoks)" and
    ll: "length (labels example_output) = length (convert_tokens_to_ids ?tk dtoks)" and
    mk: "dec_mask example_output = loss_mask example_output" and
    rows: "\<forall>i<length (convert_tokens_to_ids ?tk dtoks).
               length (text_dec example_output ! i) = W
             \<and> length (labels example_output ! i) = W
             \<and> Suc (length (convert_tokens_to_ids ?tk dtoks ! i)) \<le> W
             \<and> text_dec example_output ! i
                 = (bos_id ?tk # convert_tokens_to_ids ?tk dtoks ! i)
                   @ replicate (W - Suc (length (convert_tokens_to_ids ?tk dtoks ! i))) (pad_id ?tk)
             \<and> labels example_output ! i
                 = (convert_tokens_to_ids ?tk dtoks ! i @ [eos_id ?tk])
                   @ replicate (W - Suc (length (convert_tokens_to_ids ?tk dtoks ! i))) (- 1)"
    by (elim exE conjE)
  have w1: "w1 = 0" using pe by (simp add: example_flags example_prepare)
  have dtoks: "dtoks = [''CO'', ''C'']"
    using pd unfolding w1 by (simp add: example_flags example_prepare)
  have i0: "0 < length (convert_tokens_to_ids ?tk dtoks)"
    and i1: "1 < length (convert_tokens_to_ids ?tk dtoks)"
    unfolding dtoks example_ids by simp_all
  from rows [rule_format, OF i0]
  have a: "length (text_dec example_output ! 0) = length (labels example_output ! 0)" by simp
  from rows [rule_format, OF i1]
  have b: "length (text_dec example_output ! 1) = length (labels example_output ! 1)" by simp
  from ld ll have c: "length (text_dec example_output) = length (labels example_output)" by simp
  from example_collate a b c mk show ?thesis by blast
qed


text \<open>
  C5. In the batch \<open>collate_fn\<close> returns, every row of \<open>text_enc\<close> and of
  \<open>enc_mask\<close> has the same width, a multiple of 8 when
  \<open>pad_size_divisible_by_8\<close> is set; each row is the row's encoder token ids
  followed by pad ids up to the width, masked 1 on the ids and 0 on the padding,
  so the number of padded positions is the width minus the row's token count;
  the number of entries equal to the pad id is that number plus the pad ids
  among the row's own token ids.
\<close>

theorem collate_fn_encoder_padding:
  assumes "collate_fn cfg c tk batch label_pad w = Inr (out, w')"
  shows "\<exists>etoks em et w1 W.
           prepare_tokens cfg c tk batch (encoder_augment cfg) (encoder_mask cfg) w
             = Inr ((etoks, em, et), w1)
         \<and> W = pad_width cfg (convert_tokens_to_ids tk etoks)
         \<and> (pad_size_divisible_by_8 cfg \<longrightarrow> 8 dvd W)
         \<and> length (text_enc out) = length (convert_tokens_to_ids tk etoks)
         \<and> length (enc_mask out) = length (convert_tokens_to_ids tk etoks)
         \<and> (\<forall>i<length (convert_tokens_to_ids tk etoks).
               length (text_enc out ! i) = W \<and> length (enc_mask out ! i) = W
             \<and> length (convert_tokens_to_ids tk etoks ! i) \<le> W
             \<and> text_enc out ! i
                 = convert_tokens_to_ids tk etoks ! i
                   @ replicate (W - length (convert_tokens_to_ids tk etoks ! i)) (pad_id tk)
             \<and> enc_mask out ! i
                 = replicate (length (convert_tokens_to_ids tk etoks ! i)) 1
                   @ replicate (W - length (convert_tokens_to_ids tk etoks ! i)) 0
             \<and> length (filter (\<lambda>m. m = 0) (enc_mask out ! i))
                 = W - length (convert_tokens_to_ids tk etoks ! i)
             \<and> count_list (text_enc out ! i) (pad_id tk)
                 = W - length (convert_tokens_to_ids tk etoks ! i)
                   + count_list (convert_tokens_to_ids tk etoks ! i) (pad_id tk))"
proof -
  from assms obtain etoks em et w1 where
    pe: "prepare_tokens cfg c tk batch (encoder_augment cfg) (encoder_mask cfg) w
       = Inr ((etoks, em, et), w1)" and
    ps: "pad_seqs cfg (convert_tokens_to_ids tk etoks) (pad_id tk)
       = Inr (text_enc out, enc_mask out)"
    by (rule collate_fn_Inr)
  define ids where "ids = convert_tokens_to_ids tk etoks"
  define W where "W = pad_width cfg ids"
  note st = pad_seqs_Inr [OF ps, folded ids_def, folded W_def]
  have dv: "pad_size_divisible_by_8 cfg \<longrightarrow> 8 dvd W"
    unfolding W_def by (simp add: pad_width_dvd)
  have lens: "length (text_enc out) = length ids" "length (enc_mask out) = length ids"
    by (simp_all add: st(2,3))
  have rows: "\<forall>i<length ids.
        length (text_enc out ! i) = W \<and> length (enc_mask out ! i) = W
      \<and> length (ids ! i) \<le> W
      \<and> text_enc out ! i = ids ! i @ replicate (W - length (ids ! i)) (pad_id tk)
      \<and> enc_mask out ! i = replicate (length (ids ! i)) 1 @ replicate (W - length (ids ! i)) 0
      \<and> length (filter (\<lambda>m. m = 0) (enc_mask out ! i)) = W - length (ids ! i)
      \<and> count_list (text_enc out ! i) (pad_id tk)
          = W - length (ids ! i) + count_list (ids ! i) (pad_id tk)"
  proof (intro allI impI)
    fix i assume i: "i < length ids"
    have t: "text_enc out ! i = ids ! i @ replicate (W - length (ids ! i)) (pad_id tk)"
      using i by (simp add: st(2))
    have m: "enc_mask out ! i
        = replicate (length (ids ! i)) 1 @ replicate (W - length (ids ! i)) 0"
      using i by (simp add: st(3))
    have "ids ! i \<in> set ids" using i by simp
    then have f: "length (ids ! i) \<le> W" unfolding W_def by (rule pad_width_ge)
    have a: "length (text_enc out ! i) = W" unfolding t using f by simp
    have b: "length (enc_mask out ! i) = W" unfolding m using f by simp
    have c: "length (filter (\<lambda>m. m = 0) (enc_mask out ! i)) = W - length (ids ! i)"
      unfolding m by (rule filter_zero_mask)
    have d: "count_list (text_enc out ! i) (pad_id tk)
        = W - length (ids ! i) + count_list (ids ! i) (pad_id tk)"
      unfolding t by (simp add: count_list_replicate)
    from a b f t m c d
    show "length (text_enc out ! i) = W \<and> length (enc_mask out ! i) = W
      \<and> length (ids ! i) \<le> W
      \<and> text_enc out ! i = ids ! i @ replicate (W - length (ids ! i)) (pad_id tk)
      \<and> enc_mask out ! i = replicate (length (ids ! i)) 1 @ replicate (W - length (ids ! i)) 0
      \<and> length (filter (\<lambda>m. m = 0) (enc_mask out ! i)) = W - length (ids ! i)
      \<and> count_list (text_enc out ! i) (pad_id tk)
          = W - length (ids ! i) + count_list (ids ! i) (pad_id tk)"
      by blast
  qed
  from pe W_def dv lens rows show ?thesis
    unfolding ids_def by blast
qed

theorem collate_fn_encoder_padding_witness:
  "collate_fn (example_config 10 True True) (failing_chem []) (char_tokenizer 0 2 3 256)
     [''CO'', ''C''] (- 1) 0 = Inr (example_output, 0)
   \<and> length (text_enc example_output ! 1) = length (enc_mask example_output ! 1)
   \<and> 8 dvd length (text_enc example_output ! 1)
   \<and> length (filter (\<lambda>m. m = 0) (enc_mask example_output ! 1)) = 7
   \<and> count_list (text_enc example_output ! 1) 0 = 7"
proof -
  let ?cfg = "example_config 10 True True" and ?c = "failing_chem []"
  let ?tk = "char_tokenizer 0 2 3 256"
  from collate_fn_encoder_padding [OF example_collate] obtain etoks em et w1 W where
    pe: "prepare_tokens ?cfg ?c ?tk [''CO'', ''C''] (encoder_augment ?cfg) (encoder_mask ?cfg) 0
       = Inr ((etoks, em, et), w1)" and
    dv: "pad_size_divisible_by_8 ?cfg \<longrightarrow> 8 dvd W" and
    rows: "\<forall>i<length (convert_tokens_to_ids ?tk etoks).
               length (text_enc example_output ! i) = W
             \<and> length (enc_mask example_output ! i) = W
             \<and> length (convert_tokens_to_ids ?tk etoks ! i) \<le> W
             \<and> text_enc example_output ! i
                 = convert_tokens_to_ids ?tk etoks ! i
                   @ replicate (W - length (convert_tokens_to_ids ?tk etoks ! i)) (pad_id ?tk)
             \<and> enc_mask example_output ! i
                 = replicate (length (convert_tokens_to_ids ?tk etoks ! i)) 1
                   @ replicate (W - length (convert_tokens_to_ids ?tk etoks ! i)) 0
             \<and> length (filter (\<lambda>m. m = 0) (enc_mask example_output ! i))
                 = W - length (convert_tokens_to_ids ?tk etoks ! i)
             \<and> count_list (text_enc example_output ! i) (pad_id ?tk)
                 = W - length (convert_tokens_to_ids ?tk etoks ! i)
                   + count_list (convert_tokens_to_ids ?tk etoks ! i) (pad_id ?tk)"
    by (elim exE conjE)
  have etoks: "etoks = [''CO'', ''C'']"
    using pe by (simp add: example_flags example_prepare)
  have i1: "1 < length (convert_tokens_to_ids ?tk etoks)"
    unfolding etoks example_ids by simp
  note r = rows [rule_format, OF i1]
  have w: "W = 8" using r by (simp add: example_output_def)
  from dv have d8: "8 dvd W" by (simp add: example_flags)
  from r have a: "length (text_enc example_output ! 1) = length (enc_mask example_output ! 1)"
    by simp
  from r d8 have b: "8 dvd length (text_enc example_output ! 1)" by simp
  from r have c: "length (filter (\<lambda>m. m = 0) (enc_mask example_output ! 1)) = 7"
    unfolding etoks example_ids w by simp
  note r7 = r [THEN conjunct2, THEN conjunct2, THEN conjunct2, THEN conjunct2,
      THEN conjunct2, THEN conjunct2]
  from r7 have d: "count_list (text_enc example_output ! 1) 0 = 7"
    unfolding etoks example_ids w example_flags by simp
  from example_collate a b c d show ?thesis by blast
qed

section \<open>Properties of the character accuracy\<close>

lemma argmax_total: "x \<noteq> [] \<Longrightarrow> \<exists>i. argmax x = Inr i"
  by (cases x) (simp_all add: argmax_def)

lemma label_matches:
  "argmax x = Inr p \<Longrightarrow> (l = int p) = (0 \<le> l \<and> argmax x = Inr (nat l))"
  by auto

lemma mask_row_total:
  "\<forall>m \<in> set mrow. m = 0 \<or> m = (1::real)
     \<Longrightarrow> sum_list mrow = real (length (filter (\<lambda>m. m = 1) mrow))"
  by (induction mrow) auto

lemma mask_total:
  "\<forall>mrow \<in> set lmask. \<forall>m \<in> set mrow. m = 0 \<or> m = (1::real)
     \<Longrightarrow> sum_list (map sum_list lmask) = real (active_count lmask)"
  unfolding active_count_def
  by (induction lmask) (simp_all add: mask_row_total)

lemma correct_row:
  assumes "list_all2 (\<lambda>x p. argmax x = Inr p) xrow prow"
    and "\<forall>m \<in> set mrow. m = 0 \<or> m = (1::real)"
  shows "sum_list (map2 (\<lambda>(l, p) m. (if l = int p then 1 else 0) * m) (zip lrow prow) mrow)
           = real (length (filter (\<lambda>((l, x), m). m = 1 \<and> 0 \<le> l \<and> argmax x = Inr (nat l))
                             (zip (zip lrow xrow) mrow)))"
  using assms
proof (induction xrow prow arbitrary: lrow mrow rule: list_all2_induct)
  case Nil
  then show ?case by simp
next
  case (Cons x xs p ps)
  show ?case
  proof (cases lrow)
    case Nil
    then show ?thesis by simp
  next
    case lc: (Cons l ls)
    show ?thesis
    proof (cases mrow)
      case Nil
      then show ?thesis by simp
    next
      case mc: (Cons m ms)
      have bin: "m = 0 \<or> m = 1" and rest: "\<forall>m \<in> set ms. m = 0 \<or> m = 1"
        using Cons.prems by (simp_all add: mc)
      note ih = Cons.IH [OF rest, of ls]
      have eq: "(l = int p) = (0 \<le> l \<and> argmax x = Inr (nat l))"
        using Cons.hyps(1) by (rule label_matches)
      show ?thesis
        unfolding lc mc using bin eq ih by auto
    qed
  qed
qed


lemma correct_batch:
  assumes "list_all2 (list_all2 (\<lambda>x p. argmax x = Inr p)) logits preds"
    and "\<forall>mrow \<in> set lmask. \<forall>m \<in> set mrow. m = 0 \<or> m = (1::real)"
  shows "sum_list (map sum_list
            (map2 (\<lambda>(lrow, prow) mrow.
                     map2 (\<lambda>(l, p) m. (if l = int p then 1 else 0) * m) (zip lrow prow) mrow)
               (zip lbls preds) lmask))
           = real (correct_active_count logits lmask lbls)"
  using assms
proof (induction logits preds arbitrary: lbls lmask rule: list_all2_induct)
  case Nil
  then show ?case by (simp add: correct_active_count_def)
next
  case (Cons xrow xs prow ps)
  show ?case
  proof (cases lbls)
    case Nil
    then show ?thesis by (simp add: correct_active_count_def)
  next
    case lc: (Cons lrow ls)
    show ?thesis
    proof (cases lmask)
      case Nil
      then show ?thesis by (simp add: correct_active_count_def)
    next
      case mc: (Cons mrow ms)
      have bin: "\<forall>m \<in> set mrow. m = 0 \<or> m = 1"
        and rest: "\<forall>mrow \<in> set ms. \<forall>m \<in> set mrow. m = 0 \<or> m = 1"
        using Cons.prems by (simp_all add: mc)
      note ih = Cons.IH [OF rest, of ls]
      note row = correct_row [OF Cons.hyps(1) bin, of lrow]
      show ?thesis
        unfolding lc mc using ih row by (simp add: correct_active_count_def)
    qed
  qed
qed

lemma count_row_split:
  assumes "length lrow = length xrow" "length xrow = length mrow"
  shows "length (filter (\<lambda>((l, x), m). m = 1 \<and> 0 \<le> l \<and> argmax x = Inr (nat l))
                   (zip (zip lrow xrow) mrow))
         + length (filter (\<lambda>((l, x), m). m = 1 \<and> \<not> (0 \<le> l \<and> argmax x = Inr (nat l)))
                   (zip (zip lrow xrow) mrow))
         = length (filter (\<lambda>m. m = (1::real)) mrow)"
  using assms by (induction lrow xrow mrow rule: list_induct3) auto

lemma count_batch_split:
  assumes "map length lbls = map length logits" "map length lmask = map length logits"
  shows "correct_active_count logits lmask lbls + wrong_active_count logits lmask lbls
           = active_count lmask"
  using assms
proof (induction logits arbitrary: lbls lmask)
  case Nil
  then show ?case
    by (simp add: correct_active_count_def wrong_active_count_def active_count_def)
next
  case (Cons xrow xs)
  from Cons.prems obtain lrow ls where lc: "lbls = lrow # ls" by (cases lbls) auto
  from Cons.prems obtain mrow ms where mc: "lmask = mrow # ms" by (cases lmask) auto
  have l1: "length lrow = length xrow" and l2: "length xrow = length mrow"
    and r1: "map length ls = map length xs" and r2: "map length ms = map length xs"
    using Cons.prems by (simp_all add: lc mc)
  note ih = Cons.IH [OF r1 r2]
  note row = count_row_split [OF l1 l2]
  show ?case
    using ih row unfolding lc mc
    by (simp add: correct_active_count_def wrong_active_count_def active_count_def)
qed

text \<open>
  C8. For logits, loss mask and labels of one shape, a loss mask of zeros and
  ones with at least one 1, and a non-empty vocabulary dimension, the character
  accuracy is the number of positions where the loss mask is 1 and the position
  of the largest logit is the label, divided by the number of positions where
  the loss mask is 1. When no active position is mispredicted it is 1; with 10
  active positions of which exactly one is mispredicted it is 9/10.
\<close>

theorem calculate_character_accuracy_spec:
  assumes shape: "map length lbls = map length logits" "map length lmask = map length logits"
    and binary: "\<forall>mrow \<in> set lmask. \<forall>m \<in> set mrow. m = 0 \<or> m = 1"
    and vocab: "\<forall>xrow \<in> set logits. \<forall>x \<in> set xrow. x \<noteq> []"
    and active: "0 < active_count lmask"
  shows "calculate_character_accuracy logits lmask lbls
           = Inr (real (correct_active_count logits lmask lbls) / real (active_count lmask))
         \<and> (wrong_active_count logits lmask lbls = 0
              \<longrightarrow> calculate_character_accuracy logits lmask lbls = Inr 1)
         \<and> (active_count lmask = 10 \<and> wrong_active_count logits lmask lbls = 1
              \<longrightarrow> calculate_character_accuracy logits lmask lbls = Inr (9 / 10))"
proof -
  have rowex: "\<exists>prow. map_exn argmax xrow = Inr prow" if "xrow \<in> set logits" for xrow
    using that vocab by (intro map_exn_total argmax_total) blast
  have "\<exists>preds. map_exn (map_exn argmax) logits = Inr preds"
    by (rule map_exn_total) (rule rowex)
  then obtain preds where p: "map_exn (map_exn argmax) logits = Inr preds" ..
  have "list_all2 (\<lambda>xrow prow. map_exn argmax xrow = Inr prow) logits preds"
    using p by (rule map_exn_Inr)
  then have rel: "list_all2 (list_all2 (\<lambda>x p. argmax x = Inr p)) logits preds"
    by (rule list_all2_mono) (rule map_exn_Inr)
  have num: "sum_list (map sum_list
            (map2 (\<lambda>(lrow, prow) mrow.
                     map2 (\<lambda>(l, p) m. (if l = int p then 1 else 0) * m) (zip lrow prow) mrow)
               (zip lbls preds) lmask))
           = real (correct_active_count logits lmask lbls)"
    using rel binary by (rule correct_batch)
  have tot: "sum_list (map sum_list lmask) = real (active_count lmask)"
    using binary by (rule mask_total)
  have main: "calculate_character_accuracy logits lmask lbls
      = Inr (real (correct_active_count logits lmask lbls) / real (active_count lmask))"
    unfolding calculate_character_accuracy_def p
    by (simp only: sum.simps Let_def num tot) (simp add: active)
  note split = count_batch_split [OF shape]
  have one: "calculate_character_accuracy logits lmask lbls = Inr 1"
    if "wrong_active_count logits lmask lbls = 0"
  proof -
    from split that have "correct_active_count logits lmask lbls = active_count lmask" by simp
    then show ?thesis unfolding main using active by simp
  qed
  have nine: "calculate_character_accuracy logits lmask lbls = Inr (9 / 10)"
    if "active_count lmask = 10 \<and> wrong_active_count logits lmask lbls = 1"
  proof -
    from split that have "correct_active_count logits lmask lbls = 9"
      and "active_count lmask = 10" by simp_all
    then show ?thesis unfolding main by simp
  qed
  from main one nine show ?thesis by blast
qed

lemma example_accuracy_counts:
  "active_count example_loss_mask = 10"
  "wrong_active_count example_logits example_loss_mask
     [[1, 0, 2, 1, 0, - 1], [1, 0, 2, 1, 0, - 1]] = 0"
  "wrong_active_count example_logits example_loss_mask
     [[1, 0, 2, 1, 0, - 1], [1, 0, 2, 1, 2, - 1]] = 1"
  by (simp_all add: active_count_def wrong_active_count_def example_logits_def
        example_loss_mask_def argmax_def)

theorem calculate_character_accuracy_spec_witness:
  "calculate_character_accuracy example_logits example_loss_mask
     [[1, 0, 2, 1, 0, - 1], [1, 0, 2, 1, 0, - 1]] = Inr 1
   \<and> calculate_character_accuracy example_logits example_loss_mask
     [[1, 0, 2, 1, 0, - 1], [1, 0, 2, 1, 2, - 1]] = Inr (9 / 10)"
proof -
  have binary: "\<forall>mrow \<in> set example_loss_mask. \<forall>m \<in> set mrow. m = 0 \<or> m = 1"
    by (simp add: example_loss_mask_def)
  have vocab: "\<forall>xrow \<in> set example_logits. \<forall>x \<in> set xrow. x \<noteq> []"
    by (simp add: example_logits_def)
  have active: "0 < active_count example_loss_mask"
    by (simp add: example_accuracy_counts)
  have s2: "map length example_loss_mask = map length example_logits"
    by (simp add: example_loss_mask_def example_logits_def)
  have s1: "map length [[1, 0, 2, 1, 0, - 1], [1, 0, 2, 1, 0, - 1 :: int]]
      = map length example_logits"
    by (simp add: example_logits_def)
  have s1': "map length [[1, 0, 2, 1, 0, - 1], [1, 0, 2, 1, 2, - 1 :: int]]
      = map length example_logits"
    by (simp add: example_logits_def)
  have w0: "wrong_active_count example_logits example_loss_mask
      [[1, 0, 2, 1, 0, - 1], [1, 0, 2, 1, 0, - 1]] = 0"
    by (rule example_accuracy_counts)
  have w1: "active_count example_loss_mask = 10
      \<and> wrong_active_count example_logits example_loss_mask
          [[1, 0, 2, 1, 0, - 1], [1, 0, 2, 1, 2, - 1]] = 1"
    by (simp add: example_accuracy_counts)
  from calculate_character_accuracy_spec [OF s1 s2 binary vocab active,
      THEN conjunct2, THEN conjunct1] w0
  have a: "calculate_character_accuracy example_logits example_loss_mask
      [[1, 0, 2, 1, 0, - 1], [1, 0, 2, 1, 0, - 1]] = Inr 1"
    by (rule mp)
  from calculate_character_accuracy_spec [OF s1' s2 binary vocab active,
      THEN conjunct2, THEN conjunct2] w1
  have b: "calculate_character_accuracy example_logits example_loss_mask
      [[1, 0, 2, 1, 0, - 1], [1, 0, 2, 1, 2, - 1]] = Inr (9 / 10)"
    by (rule mp)
  from a b show ?thesis ..
qed

end
